theory Spec2Isabelle
  imports Complex_Main
begin

section \<open>batchcopy.py: the threaded copy engine and its session\<close>

text \<open>
  The development embeds \<^verbatim>\<open>src/batchcopy.py\<close>: the class \<^verbatim>\<open>ThreadedCopy\<close>
  (planner \<^verbatim>\<open>init\<close>, queue, worker loop, \<^verbatim>\<open>start\<close>, \<^verbatim>\<open>wait\<close>, \<^verbatim>\<open>stop\<close>) and the
  parts of \<^verbatim>\<open>BatchCopy._on_start\<close> that admit and drive a copy session.

  Everything the program asks of the operating system, of the Python library and of the
  module \<^verbatim>\<open>helpers\<close> (which is not part of the sources at hand) is a field of the record
  \<open>os\<close> below; the functions of the program take that record as a parameter, so every
  theorem holds for whatever these calls do. The file system is a value of an arbitrary
  type \<open>'fs\<close> that the calls read and return updated.
\<close>

subsection \<open>Exceptions, messages, the interface to the platform\<close>

text \<open>
  The exceptions the code tells apart (\<^verbatim>\<open>except FileExistsError\<close>,
  \<^verbatim>\<open>except FileNotFoundError\<close>, \<^verbatim>\<open>except Exception\<close>); each carries the text
  \<^verbatim>\<open>str(e)\<close>.
\<close>

datatype exn =
    FileExistsError string
  | FileNotFoundError string
  | OtherError string

fun is_FileExistsError :: "exn \<Rightarrow> bool" where
  "is_FileExistsError (FileExistsError m) = True"
| "is_FileExistsError e = False"

fun is_FileNotFoundError :: "exn \<Rightarrow> bool" where
  "is_FileNotFoundError (FileNotFoundError m) = True"
| "is_FileNotFoundError e = False"

text \<open>
  One constructor for each format string that the program hands to its log callback;
  the arguments are the values the format string interpolates. \<open>CopyingGB\<close> and
  \<open>NotEnoughSpace\<close> carry tenths of a GiB, \<open>Finished\<close> carries copied, planned, seconds.
\<close>

datatype msg =
    CollectingSourceSubfolders
  | CreatingTargetFolders
  | PreparingFiles
  | WarningFolderMissing string
  | Skipping string string
  | Deleting string
  | ErrorCopyingFile string exn
  | ErrorPreparing string exn
  | Prepared nat
  | Copying string
  | ErrorCopying exn
  | CopyingGB nat
  | Finished nat nat int
  | NothingToCopy

datatype dialog =
    NoSourceSelected
  | NoTargetSelected
  | TargetDoesNotExist
  | NotEnoughSpace nat nat

text \<open>
  The calls into \<^verbatim>\<open>os\<close>, \<^verbatim>\<open>os.path\<close>, \<^verbatim>\<open>shutil\<close> and \<^verbatim>\<open>helpers.Helpers\<close>. A call that can
  raise returns \<open>Inl\<close> of the exception; a call that changes the file system returns the
  new one. \<open>shutil_copy fs src dst follow_symlinks\<close> is
  \<^verbatim>\<open>shutil.copy(src, dst, follow_symlinks=...)\<close>.
\<close>

record 'fs os =
  os_sep :: string
  os_path_join :: "string \<Rightarrow> string \<Rightarrow> string"
  os_path_abspath :: "string \<Rightarrow> string"
  os_path_exists :: "'fs \<Rightarrow> string \<Rightarrow> bool"
  os_path_isfile :: "'fs \<Rightarrow> string \<Rightarrow> bool"
  os_path_getsize :: "'fs \<Rightarrow> string \<Rightarrow> exn + nat"
  os_listdir :: "'fs \<Rightarrow> string \<Rightarrow> exn + string list"
  os_mkdir :: "'fs \<Rightarrow> string \<Rightarrow> exn + 'fs"
  os_remove :: "'fs \<Rightarrow> string \<Rightarrow> exn + 'fs"
  shutil_copy :: "'fs \<Rightarrow> string \<Rightarrow> string \<Rightarrow> bool \<Rightarrow> exn + 'fs"
  get_subdirs :: "'fs \<Rightarrow> string \<Rightarrow> string \<Rightarrow> string list"
  get_used_space :: "'fs \<Rightarrow> string list \<Rightarrow> nat"
  get_free_space :: "'fs \<Rightarrow> string \<Rightarrow> nat"

subsection \<open>The state of a session\<close>

text \<open>
  A queue entry is the pair \<^verbatim>\<open>[source, dest]\<close>; a field is a string or \<^verbatim>\<open>None\<close>.
  \<open>truthy\<close> is Python's truth value of such a field.
\<close>

type_synonym task = "string option \<times> string option"

fun truthy :: "string option \<Rightarrow> bool" where
  "truthy None = False"
| "truthy (Some v) = (v \<noteq> [])"

text \<open>
  Where a worker thread stands in \<^verbatim>\<open>_worker_func\<close>:
  \<open>Idle\<close> at \<^verbatim>\<open>self._file_queue.get()\<close>; \<open>Got\<close> holding the entry, before the test;
  \<open>InCopy\<close> after the log line, before \<^verbatim>\<open>shutil.copy\<close>; \<open>WantLock\<close> before
  \<^verbatim>\<open>with self.lock\<close>; \<open>Locked\<close> holding the lock; \<open>Loaded n\<close> having read the counter;
  \<open>Stored\<close> having written it, before the lock is released; \<open>Caught e\<close> in the
  \<^verbatim>\<open>except\<close> clause; \<open>Finally b\<close> before \<^verbatim>\<open>task_done()\<close>, \<open>b\<close> telling that \<^verbatim>\<open>break\<close>
  was taken; \<open>Exited\<close> after the loop; \<open>Died\<close> after an exception left the function.
\<close>

datatype wpc =
    Idle
  | Got task
  | InCopy string string
  | WantLock
  | Locked
  | Loaded nat
  | Stored
  | Caught exn
  | Finally bool
  | Exited
  | Died

text \<open>
  What the thread that runs \<^verbatim>\<open>start_copy\<close> (or any other client of the pool) has still
  to do: \<open>Init\<close> is \<^verbatim>\<open>ThreadedCopy.init\<close> followed by the branch on
  \<^verbatim>\<open>total_file_count\<close>; \<open>Start n\<close> is \<^verbatim>\<open>start(n)\<close>, \<open>Spawn\<close> one round of its loop;
  \<open>Wait\<close> is \<^verbatim>\<open>wait()\<close>; \<open>Stop\<close> is \<^verbatim>\<open>stop()\<close>, \<open>Put\<close> one \<^verbatim>\<open>put\<close> on the queue and
  \<open>Join t d\<close> the call \<^verbatim>\<open>t.join(d)\<close>; \<open>Report\<close> and \<open>ReportNothing\<close> are the two summary
  lines.
\<close>

datatype action =
    Init
  | Start nat
  | Spawn
  | Wait
  | Stop
  | Put task
  | Join nat nat
  | Report
  | ReportNothing

text \<open>
  The fields of \<^verbatim>\<open>ThreadedCopy\<close>, the file system and the log. \<open>file_queue\<close> and
  \<open>unfinished_tasks\<close> are the content and the counter of \<^verbatim>\<open>queue.Queue\<close>; \<open>lock\<close> is
  the holder of \<^verbatim>\<open>self.lock\<close>; \<open>workers\<close> has the control point of every thread ever
  started and \<open>threads\<close> is \<^verbatim>\<open>self._threads\<close>, as indices into \<open>workers\<close>.
\<close>

record 'fs state =
  fs :: 'fs
  logs :: "msg list"
  stopping :: bool
  file_queue :: "task list"
  unfinished_tasks :: nat
  total_file_count :: nat
  copied_file_count :: nat
  lock :: "nat option"
  workers :: "wpc list"
  threads :: "nat list"
  pending :: "action list"

definition new_session :: "'fs \<Rightarrow> msg list \<Rightarrow> action list \<Rightarrow> 'fs state" where
  "new_session f lg prog =
     \<lparr>fs = f, logs = lg, stopping = False, file_queue = [], unfinished_tasks = 0,
      total_file_count = 0, copied_file_count = 0, lock = None, workers = [],
      threads = [], pending = prog\<rparr>"

definition log_line :: "msg \<Rightarrow> 'fs state \<Rightarrow> 'fs state" where
  "log_line m s = s\<lparr>logs := logs s @ [m]\<rparr>"

definition put :: "string option \<Rightarrow> string option \<Rightarrow> 'fs state \<Rightarrow> 'fs state" where
  "put source dest s =
     s\<lparr>file_queue := file_queue s @ [(source, dest)],
       unfinished_tasks := unfinished_tasks s + 1\<rparr>"

subsection \<open>The planner: \<^verbatim>\<open>ThreadedCopy.init\<close>\<close>

text \<open>
  Lines 86 to 92. \<open>add_subdirs\<close> is the innermost loop,
  \<^verbatim>\<open>for d in subdirs: if d not in folders: folders.append(d)\<close>.
\<close>

fun add_subdirs :: "string list \<Rightarrow> string list \<Rightarrow> string list" where
  "add_subdirs [] folders = folders"
| "add_subdirs (d # ds) folders =
     add_subdirs ds (if d \<in> set folders then folders else folders @ [d])"

definition collect_folders ::
  "('fs, 'x) os_scheme \<Rightarrow> 'fs \<Rightarrow> string list \<Rightarrow> string list \<Rightarrow> string list" where
  "collect_folders os f sources startswith =
     fold (\<lambda>s folders.
            fold (\<lambda>p folders. add_subdirs (get_subdirs os f s p) folders) startswith folders)
          sources []"

text \<open>
  Lines 95 to 101: one round of the loop that creates the target folders. Only
  \<^verbatim>\<open>FileExistsError\<close> is caught; any other exception of \<^verbatim>\<open>os.mkdir\<close> leaves \<^verbatim>\<open>init\<close>.
\<close>

definition create_folder :: "('fs, 'x) os_scheme \<Rightarrow> string \<Rightarrow> string \<Rightarrow> 'fs \<Rightarrow> exn + 'fs" where
  "create_folder os target f fs0 =
     (let p = os_path_abspath os (os_path_join os target f) in
      if \<not> os_path_exists os fs0 p then
        (case os_mkdir os fs0 p of
           Inr fs1 \<Rightarrow> Inr fs1
         | Inl e \<Rightarrow> if is_FileExistsError e then Inr fs0 else Inl e)
      else Inr fs0)"

text \<open>
  The loop itself; the result holds the exception that ended it, if any, and the file
  system as the rounds before it left it.
\<close>

fun create_folders ::
  "('fs, 'x) os_scheme \<Rightarrow> string \<Rightarrow> string list \<Rightarrow> 'fs \<Rightarrow> exn option \<times> 'fs" where
  "create_folders os target [] fs0 = (None, fs0)"
| "create_folders os target (f # folders) fs0 =
     (case create_folder os target f fs0 of
        Inl e \<Rightarrow> (Some e, fs0)
      | Inr fs1 \<Rightarrow> create_folders os target folders fs1)"

text \<open>
  The same loop, which also lists the folders for which it calls \<^verbatim>\<open>os.mkdir\<close>, in the
  order of the calls.
\<close>

fun create_folders_traced ::
  "('fs, 'x) os_scheme \<Rightarrow> string \<Rightarrow> string list \<Rightarrow> 'fs \<Rightarrow> (exn option \<times> 'fs) \<times> string list" where
  "create_folders_traced os target [] fs0 = ((None, fs0), [])"
| "create_folders_traced os target (f # folders) fs0 =
     (let p = os_path_abspath os (os_path_join os target f) in
      if \<not> os_path_exists os fs0 p then
        (case os_mkdir os fs0 p of
           Inr fs1 \<Rightarrow>
             (case create_folders_traced os target folders fs1 of (r, calls) \<Rightarrow> (r, f # calls))
         | Inl e \<Rightarrow>
             if is_FileExistsError e
             then (case create_folders_traced os target folders fs0 of (r, calls) \<Rightarrow> (r, f # calls))
             else ((Some e, fs0), [f]))
      else create_folders_traced os target folders fs0)"

text \<open>Lines 131 and 132: \<^verbatim>\<open>self.put(source_file, destination)\<close>, then the count.\<close>

definition plan_task :: "string \<Rightarrow> string \<Rightarrow> 'fs state \<Rightarrow> 'fs state" where
  "plan_task source_file destination s =
     (let s1 = put (Some source_file) (Some destination) s
      in s1\<lparr>total_file_count := total_file_count s1 + 1\<rparr>)"

text \<open>
  Lines 120 to 134: the body of \<^verbatim>\<open>for filename in source_filenames\<close>, with its
  \<^verbatim>\<open>try ... except Exception\<close>. \<^verbatim>\<open>os.path.getsize\<close> is asked of the destination first.
\<close>

definition plan_file ::
  "('fs, 'x) os_scheme \<Rightarrow> string \<Rightarrow> string \<Rightarrow> string \<Rightarrow> 'fs state \<Rightarrow> 'fs state" where
  "plan_file os source destination filename s =
     (let source_file = os_path_abspath os (os_path_join os source filename);
          destination_file = os_path_abspath os (os_path_join os destination filename)
      in
      if os_path_exists os (fs s) destination_file then
        (case os_path_getsize os (fs s) destination_file of
           Inl e \<Rightarrow> log_line (ErrorCopyingFile source_file e) s
         | Inr dsize \<Rightarrow>
            (case os_path_getsize os (fs s) source_file of
               Inl e \<Rightarrow> log_line (ErrorCopyingFile source_file e) s
             | Inr ssize \<Rightarrow>
                if dsize = ssize then log_line (Skipping source_file destination_file) s
                else
                  (let s1 = log_line (Deleting destination_file) s in
                   case os_remove os (fs s1) destination_file of
                     Inl e \<Rightarrow> log_line (ErrorCopyingFile source_file e) s1
                   | Inr fs1 \<Rightarrow> plan_task source_file destination (s1\<lparr>fs := fs1\<rparr>))))
      else plan_task source_file destination s)"

text \<open>
  Lines 106 to 136: the body of \<^verbatim>\<open>for s in sources\<close> for the folder \<open>f\<close>. A missing
  source folder is a warning and leaves no file names; any other exception of
  \<^verbatim>\<open>os.listdir\<close> reaches the outer \<^verbatim>\<open>except\<close>.
\<close>

definition plan_source ::
  "('fs, 'x) os_scheme \<Rightarrow> string \<Rightarrow> string \<Rightarrow> string \<Rightarrow> 'fs state \<Rightarrow> 'fs state" where
  "plan_source os target f src s =
     (let source = os_path_abspath os (os_path_join os src f);
          destination = os_path_abspath os (os_path_join os target f) @ os_sep os
      in
      case os_listdir os (fs s) source of
        Inl e \<Rightarrow>
          if is_FileNotFoundError e then log_line (WarningFolderMissing source) s
          else log_line (ErrorPreparing src e) s
      | Inr names \<Rightarrow>
          fold (plan_file os source destination)
            (filter (\<lambda>sf. os_path_isfile os (fs s) (os_path_join os source sf)) names) s)"

definition plan_folders ::
  "('fs, 'x) os_scheme \<Rightarrow> string list \<Rightarrow> string \<Rightarrow> string list \<Rightarrow> 'fs state \<Rightarrow> 'fs state" where
  "plan_folders os sources target folders s =
     fold (\<lambda>f s1. fold (plan_source os target f) sources s1) folders s"

text \<open>
  The whole of \<^verbatim>\<open>init\<close>. The first component is the exception that left it (from the
  loop that creates the folders), if any.
\<close>

definition init ::
  "('fs, 'x) os_scheme \<Rightarrow> string list \<Rightarrow> string \<Rightarrow> string list \<Rightarrow> 'fs state
     \<Rightarrow> exn option \<times> 'fs state" where
  "init os sources target startswith s =
     (let s1 = log_line CollectingSourceSubfolders s;
          folders = collect_folders os (fs s1) sources startswith;
          s2 = log_line CreatingTargetFolders s1
      in
      case create_folders os target folders (fs s2) of
        (Some e, fs1) \<Rightarrow> (Some e, s2\<lparr>fs := fs1\<rparr>)
      | (None, fs1) \<Rightarrow>
          (let s3 = log_line PreparingFiles (s2\<lparr>fs := fs1\<rparr>);
               s4 = plan_folders os sources target folders s3
           in (None, log_line (Prepared (total_file_count s4)) s4)))"

subsection \<open>The worker: \<^verbatim>\<open>ThreadedCopy._worker_func\<close>\<close>

definition set_worker :: "nat \<Rightarrow> wpc \<Rightarrow> 'fs state \<Rightarrow> 'fs state" where
  "set_worker t c s = s\<lparr>workers := (workers s)[t := c]\<rparr>"

text \<open>
  Line 40, on the entry just taken from the queue: the test
  \<^verbatim>\<open>source and dest and not self._stopping\<close>, then the log line or \<^verbatim>\<open>break\<close>.
\<close>

fun check_entry :: "nat \<Rightarrow> task \<Rightarrow> 'fs state \<Rightarrow> 'fs state" where
  "check_entry t (Some source, Some dest) s =
     (if source \<noteq> [] \<and> dest \<noteq> [] \<and> \<not> stopping s
      then set_worker t (InCopy source dest) (log_line (Copying source) s)
      else set_worker t (Finally True) s)"
| "check_entry t (source, dest) s = set_worker t (Finally True) s"

text \<open>
  One step of the worker thread \<open>t\<close>; \<open>None\<close> where the thread cannot move (it waits
  for a queue entry or for the lock, it has ended, or there is no such thread).
  \<^verbatim>\<open>task_done()\<close> raises \<^verbatim>\<open>ValueError\<close> when nothing is unfinished, which ends the thread.
\<close>

definition worker_step :: "('fs, 'x) os_scheme \<Rightarrow> nat \<Rightarrow> 'fs state \<Rightarrow> 'fs state option" where
  "worker_step os t s =
     (if length (workers s) \<le> t then None
      else
        case workers s ! t of
          Idle \<Rightarrow>
            (case file_queue s of
               [] \<Rightarrow> None
             | x # q \<Rightarrow> Some (set_worker t (Got x) (s\<lparr>file_queue := q\<rparr>)))
        | Got x \<Rightarrow> Some (check_entry t x s)
        | InCopy source dest \<Rightarrow>
            (case shutil_copy os (fs s) source dest False of
               Inr fs1 \<Rightarrow> Some (set_worker t WantLock (s\<lparr>fs := fs1\<rparr>))
             | Inl e \<Rightarrow> Some (set_worker t (Caught e) s))
        | WantLock \<Rightarrow>
            (if lock s = None then Some (set_worker t Locked (s\<lparr>lock := Some t\<rparr>))
             else None)
        | Locked \<Rightarrow> Some (set_worker t (Loaded (copied_file_count s)) s)
        | Loaded n \<Rightarrow> Some (set_worker t Stored (s\<lparr>copied_file_count := n + 1\<rparr>))
        | Stored \<Rightarrow> Some (set_worker t (Finally False) (s\<lparr>lock := None\<rparr>))
        | Caught e \<Rightarrow> Some (set_worker t (Finally False) (log_line (ErrorCopying e) s))
        | Finally b \<Rightarrow>
            (if unfinished_tasks s = 0 then Some (set_worker t Died s)
             else Some (set_worker t (if b then Exited else Idle)
                          (s\<lparr>unfinished_tasks := unfinished_tasks s - 1\<rparr>)))
        | Exited \<Rightarrow> None
        | Died \<Rightarrow> None)"

subsection \<open>The client thread: \<^verbatim>\<open>start\<close>, \<^verbatim>\<open>wait\<close>, \<^verbatim>\<open>stop\<close> and \<^verbatim>\<open>start_copy\<close>\<close>

text \<open>
  Line 401: \<^verbatim>\<open>int(end - start) + 1\<close> on the difference of the two clock readings;
  \<^verbatim>\<open>int\<close> cuts a float towards zero.
\<close>

definition py_int :: "real \<Rightarrow> int" where
  "py_int x = (if 0 \<le> x then \<lfloor>x\<rfloor> else \<lceil>x\<rceil>)"

definition duration :: "real \<Rightarrow> int" where
  "duration elapsed = py_int elapsed + 1"

text \<open>
  Lines 65 to 73: what \<^verbatim>\<open>stop\<close> does after it has set the flag, for the list
  \<^verbatim>\<open>self._threads\<close>: one \<^verbatim>\<open>put((None, None))\<close> for each thread, then one \<^verbatim>\<open>join(2)\<close>
  for each.
\<close>

definition stop_actions :: "nat list \<Rightarrow> action list" where
  "stop_actions ths =
     (if ths \<noteq> [] then map (\<lambda>i. Put (None, None)) ths @ map (\<lambda>t. Join t 2) ths else [])"

text \<open>
  Lines 393 to 404: what \<^verbatim>\<open>start_copy\<close> does once \<^verbatim>\<open>init\<close> has returned, for the list
  \<^verbatim>\<open>sources_dirs\<close>.
\<close>

definition after_init :: "string list \<Rightarrow> 'fs state \<Rightarrow> action list" where
  "after_init sources s =
     (if 0 < total_file_count s then [Start (length sources), Wait, Stop, Report]
      else [ReportNothing])"

text \<open>
  One step of the client thread, for the sources and the target of the session and
  the clock difference \<open>elapsed\<close> that \<open>Report\<close> reads. \<open>None\<close> where the thread cannot
  move: nothing is left to do, or \<^verbatim>\<open>Queue.join\<close> still waits. \<^verbatim>\<open>join(d)\<close> returns when the
  thread has ended or when \<open>d\<close> seconds have passed, whichever is first, so the step
  is always possible and changes nothing else. An exception that leaves \<^verbatim>\<open>init\<close> ends
  the thread.
\<close>

fun run_action ::
  "('fs, 'x) os_scheme \<Rightarrow> string list \<Rightarrow> string \<Rightarrow> real \<Rightarrow> action \<Rightarrow> action list
     \<Rightarrow> 'fs state \<Rightarrow> 'fs state option" where
  "run_action os sources target elapsed Init k s =
     (case init os sources target [''VID_'', ''PIC_''] s of
        (Some e, s1) \<Rightarrow> Some (s1\<lparr>pending := []\<rparr>)
      | (None, s1) \<Rightarrow> Some (s1\<lparr>pending := after_init sources s1 @ k\<rparr>))"
| "run_action os sources target elapsed (Start n) k s =
     Some (s\<lparr>threads := [], pending := replicate n Spawn @ k\<rparr>)"
| "run_action os sources target elapsed Spawn k s =
     (if \<not> stopping s
      then Some (s\<lparr>workers := workers s @ [Idle],
                   threads := threads s @ [length (workers s)], pending := k\<rparr>)
      else Some (s\<lparr>pending := k\<rparr>))"
| "run_action os sources target elapsed Wait k s =
     (if unfinished_tasks s = 0 then Some (s\<lparr>pending := k\<rparr>) else None)"
| "run_action os sources target elapsed Stop k s =
     Some (s\<lparr>stopping := True, pending := stop_actions (threads s) @ k\<rparr>)"
| "run_action os sources target elapsed (Put x) k s =
     Some ((put (fst x) (snd x) s)\<lparr>pending := k\<rparr>)"
| "run_action os sources target elapsed (Join t d) k s = Some (s\<lparr>pending := k\<rparr>)"
| "run_action os sources target elapsed Report k s =
     Some ((log_line (Finished (copied_file_count s) (total_file_count s) (duration elapsed)) s)
             \<lparr>pending := k\<rparr>)"
| "run_action os sources target elapsed ReportNothing k s =
     Some ((log_line NothingToCopy s)\<lparr>pending := k\<rparr>)"

definition client_step ::
  "('fs, 'x) os_scheme \<Rightarrow> string list \<Rightarrow> string \<Rightarrow> real \<Rightarrow> 'fs state \<Rightarrow> 'fs state option" where
  "client_step os sources target elapsed s =
     (case pending s of
        [] \<Rightarrow> None
      | a # k \<Rightarrow> run_action os sources target elapsed a k s)"

subsection \<open>Interleavings\<close>

text \<open>
  A schedule names, step by step, the thread that moves: the client (with the clock
  difference it would read) or the worker \<open>t\<close>. \<open>exec\<close> runs a schedule; it is \<open>None\<close>
  when the schedule asks a thread to move that cannot. The states a session can be in
  are the results of \<open>exec\<close> over all schedules.
\<close>

datatype move = Client real | Worker nat

fun step ::
  "('fs, 'x) os_scheme \<Rightarrow> string list \<Rightarrow> string \<Rightarrow> move \<Rightarrow> 'fs state \<Rightarrow> 'fs state option" where
  "step os sources target (Client elapsed) s = client_step os sources target elapsed s"
| "step os sources target (Worker t) s = worker_step os t s"

fun exec ::
  "('fs, 'x) os_scheme \<Rightarrow> string list \<Rightarrow> string \<Rightarrow> move list \<Rightarrow> 'fs state \<Rightarrow> 'fs state option" where
  "exec os sources target [] s = Some s"
| "exec os sources target (m # ms) s =
     (case step os sources target m s of
        None \<Rightarrow> None
      | Some s1 \<Rightarrow> exec os sources target ms s1)"

subsection \<open>The checks before a session: \<^verbatim>\<open>BatchCopy._on_start\<close>\<close>

text \<open>
  Lines 383 and 384: \<^verbatim>\<open>round(bytes / 1073741824, 1)\<close>, as a number of tenths. The
  division by a power of two is exact on floats for a byte count below \<open>2^53\<close>, and
  \<^verbatim>\<open>round\<close> to one digit rounds the exact value to the nearest tenth, a tie to the even
  one; two rounded floats compare as their numbers of tenths do.
\<close>

definition round_gb :: "nat \<Rightarrow> nat" where
  "round_gb b =
     (let q = (10 * b) div 1073741824; r = (10 * b) mod 1073741824 in
      if 2 * r < 1073741824 then q
      else if 1073741824 < 2 * r then q + 1
      else if even q then q else q + 1)"

text \<open>
  The outcome of \<^verbatim>\<open>_on_start\<close>: an error dialog and return, or the thread that runs
  \<^verbatim>\<open>start_copy\<close> is started, on a fresh \<^verbatim>\<open>ThreadedCopy\<close>. Both carry the file system as
  \<^verbatim>\<open>_on_start\<close> leaves it.
\<close>

datatype 'fs outcome = ShowError dialog 'fs | Launched "'fs state"

text \<open>Lines 373 to 377: \<^verbatim>\<open>os.mkdir(target_dir)\<close> under \<^verbatim>\<open>try ... except: pass\<close>.\<close>

definition ensure_target :: "('fs, 'x) os_scheme \<Rightarrow> string \<Rightarrow> 'fs \<Rightarrow> 'fs" where
  "ensure_target os target_dir fs0 =
     (if \<not> os_path_exists os fs0 target_dir then
        (case os_mkdir os fs0 target_dir of Inl e \<Rightarrow> fs0 | Inr fs1 \<Rightarrow> fs1)
      else fs0)"

definition on_start :: "('fs, 'x) os_scheme \<Rightarrow> string list \<Rightarrow> string \<Rightarrow> 'fs \<Rightarrow> 'fs outcome" where
  "on_start os sources_dirs target_dir fs0 =
     (if sources_dirs = [] then ShowError NoSourceSelected fs0
      else if target_dir = [] then ShowError NoTargetSelected fs0
      else
        (let fs1 = ensure_target os target_dir fs0 in
         if \<not> os_path_exists os fs1 target_dir then ShowError TargetDoesNotExist fs1
         else
           (let space_required_gb = round_gb (get_used_space os fs1 sources_dirs);
                space_free_gb = round_gb (get_free_space os fs1 target_dir)
            in
            if space_free_gb \<le> space_required_gb
            then ShowError (NotEnoughSpace space_required_gb space_free_gb) fs1
            else Launched (new_session fs1 [CopyingGB space_required_gb] [Init]))))"

text \<open>The states a session passes through, for a schedule of its threads.\<close>

definition session ::
  "('fs, 'x) os_scheme \<Rightarrow> string list \<Rightarrow> string \<Rightarrow> 'fs \<Rightarrow> move list \<Rightarrow> 'fs state option" where
  "session os sources_dirs target_dir fs0 ms =
     (case on_start os sources_dirs target_dir fs0 of
        ShowError d fs1 \<Rightarrow> None
      | Launched s0 \<Rightarrow> exec os sources_dirs target_dir ms s0)"

subsection \<open>A small platform for the examples\<close>

text \<open>
  An instance of \<open>os\<close> on which the functions above can be run: a file system is a list
  of absolute, normalised paths with what is there. It is used for the examples only;
  the theorems are about every \<open>os\<close>. Paths are normalised as \<^verbatim>\<open>posixpath.normpath\<close>
  does, with the root as working directory; a symbolic link is followed only as the
  last component of a path.
\<close>

datatype node = Dir | File nat | Symlink string

type_synonym pfs = "(string \<times> node) list"

fun split_path :: "string \<Rightarrow> string list" where
  "split_path [] = [[]]"
| "split_path (c # cs) =
     (if c = CHR ''/'' then [] # split_path cs
      else (case split_path cs of [] \<Rightarrow> [[c]] | w # ws \<Rightarrow> (c # w) # ws))"

fun norm_comps :: "string list \<Rightarrow> string list \<Rightarrow> string list" where
  "norm_comps [] acc = acc"
| "norm_comps (c # cs) acc =
     (if c = [] \<or> c = ''.'' then norm_comps cs acc
      else if c = ''..'' then norm_comps cs (butlast acc)
      else norm_comps cs (acc @ [c]))"

definition posix_abspath :: "string \<Rightarrow> string" where
  "posix_abspath p =
     (case norm_comps (split_path p) [] of
        [] \<Rightarrow> ''/''
      | c # cs \<Rightarrow> concat (map (\<lambda>w. CHR ''/'' # w) (c # cs)))"

definition posix_join :: "string \<Rightarrow> string \<Rightarrow> string" where
  "posix_join a b =
     (if b \<noteq> [] \<and> hd b = CHR ''/'' then b
      else if a = [] \<or> last a = CHR ''/'' then a @ b
      else a @ ''/'' @ b)"

definition basename :: "string \<Rightarrow> string" where
  "basename p = last (split_path p)"

fun follow :: "nat \<Rightarrow> pfs \<Rightarrow> string \<Rightarrow> node option" where
  "follow 0 f p = None"
| "follow (Suc n) f p =
     (case map_of f p of Some (Symlink t) \<Rightarrow> follow n f (posix_abspath t) | r \<Rightarrow> r)"

definition stat :: "pfs \<Rightarrow> string \<Rightarrow> node option" where
  "stat f p = follow (Suc (length f)) f (posix_abspath p)"

definition isdir :: "pfs \<Rightarrow> string \<Rightarrow> bool" where
  "isdir f p = (stat f p = Some Dir)"

definition child_names :: "pfs \<Rightarrow> string \<Rightarrow> string list" where
  "child_names f d =
     map basename
       (filter (\<lambda>q. q \<noteq> posix_abspath d \<and> posix_join (posix_abspath d) (basename q) = q)
          (map fst f))"

definition posix_getsize :: "pfs \<Rightarrow> string \<Rightarrow> exn + nat" where
  "posix_getsize f p =
     (case stat f p of
        Some (File n) \<Rightarrow> Inr n
      | Some Dir \<Rightarrow> Inr 4096
      | r \<Rightarrow> Inl (FileNotFoundError p))"

definition posix_listdir :: "pfs \<Rightarrow> string \<Rightarrow> exn + string list" where
  "posix_listdir f p =
     (case stat f p of
        Some Dir \<Rightarrow> Inr (child_names f p)
      | Some (File n) \<Rightarrow> Inl (OtherError p)
      | r \<Rightarrow> Inl (FileNotFoundError p))"

definition posix_mkdir :: "pfs \<Rightarrow> string \<Rightarrow> exn + pfs" where
  "posix_mkdir f p =
     (if map_of f (posix_abspath p) \<noteq> None then Inl (FileExistsError p)
      else if \<not> isdir f (p @ ''/..'') then Inl (FileNotFoundError p)
      else Inr (f @ [(posix_abspath p, Dir)]))"

definition posix_remove :: "pfs \<Rightarrow> string \<Rightarrow> exn + pfs" where
  "posix_remove f p =
     (case map_of f (posix_abspath p) of
        None \<Rightarrow> Inl (FileNotFoundError p)
      | Some Dir \<Rightarrow> Inl (OtherError p)
      | Some n \<Rightarrow> Inr (filter (\<lambda>e. fst e \<noteq> posix_abspath p) f))"

definition posix_copy :: "pfs \<Rightarrow> string \<Rightarrow> string \<Rightarrow> bool \<Rightarrow> exn + pfs" where
  "posix_copy f src dst follow_symlinks =
     (let d = (if isdir f dst then posix_join dst (basename src) else dst);
          k = posix_abspath d
      in
      case (if follow_symlinks then stat f src else map_of f (posix_abspath src)) of
        None \<Rightarrow> Inl (FileNotFoundError src)
      | Some Dir \<Rightarrow> Inl (OtherError src)
      | Some (Symlink t) \<Rightarrow>
          (if map_of f k \<noteq> None then Inl (FileExistsError d)
           else if \<not> isdir f (d @ ''/..'') \<or> last d = CHR ''/'' then Inl (FileNotFoundError d)
           else Inr (f @ [(k, Symlink t)]))
      | Some (File n) \<Rightarrow>
          (if k = posix_abspath src \<or> isdir f d \<or> last d = CHR ''/'' then Inl (OtherError d)
           else if \<not> isdir f (d @ ''/..'') then Inl (FileNotFoundError d)
           else Inr (filter (\<lambda>e. fst e \<noteq> k) f @ [(k, File n)])))"

text \<open>
  Modelled from the spec: \<^verbatim>\<open>helpers.py\<close> is not among the sources. Section 4.1 has
  \<^verbatim>\<open>get_subdirs\<close> list the names of the immediate subdirectories whose name starts with
  the prefix; section 4.3 has the space required be the sum of the sizes of the source
  files. The free space is what a volume of the given capacity has left.
\<close>

definition posix_get_subdirs :: "pfs \<Rightarrow> string \<Rightarrow> string \<Rightarrow> string list" where
  "posix_get_subdirs f s p =
     filter (\<lambda>n. isdir f (posix_join s n) \<and> take (length p) n = p) (child_names f s)"

fun file_size :: "node \<Rightarrow> nat" where
  "file_size (File n) = n"
| "file_size other = 0"

definition posix_used_space :: "pfs \<Rightarrow> string list \<Rightarrow> nat" where
  "posix_used_space f sources =
     sum_list (map (\<lambda>s. sum_list (map (\<lambda>e.
        if take (Suc (length (posix_abspath s))) (fst e) = posix_abspath s @ ''/''
        then file_size (snd e) else 0) f)) sources)"

definition posix_free_space :: "nat \<Rightarrow> pfs \<Rightarrow> string \<Rightarrow> nat" where
  "posix_free_space capacity f p = capacity - sum_list (map (\<lambda>e. file_size (snd e)) f)"

definition posix :: "nat \<Rightarrow> pfs os" where
  "posix capacity =
     \<lparr>os_sep = ''/'',
      os_path_join = posix_join,
      os_path_abspath = posix_abspath,
      os_path_exists = (\<lambda>f p. stat f p \<noteq> None),
      os_path_isfile = (\<lambda>f p. case stat f p of Some (File n) \<Rightarrow> True | r \<Rightarrow> False),
      os_path_getsize = posix_getsize,
      os_listdir = posix_listdir,
      os_mkdir = posix_mkdir,
      os_remove = posix_remove,
      shutil_copy = posix_copy,
      get_subdirs = posix_get_subdirs,
      get_used_space = posix_used_space,
      get_free_space = posix_free_space capacity\<rparr>"

text \<open>
  The file system of the examples: one card \<^verbatim>\<open>/A\<close> with a recording folder that holds a
  file of 1000 bytes and a symbolic link to it, and an empty destination \<^verbatim>\<open>/dst\<close>.
\<close>

definition demo_fs :: pfs where
  "demo_fs =
     [(''/'', Dir), (''/A'', Dir), (''/A/VID_1'', Dir), (''/A/VID_1/f'', File 1000),
      (''/A/VID_1/ln'', Symlink ''/A/VID_1/f''), (''/dst'', Dir)]"

text \<open>
  A schedule for that file system with one worker: the client plans and starts the
  worker, the worker copies both entries, the client stops it and reports, reading a
  clock difference of exactly two seconds.
\<close>

definition demo_run :: "move list" where
  "demo_run =
     [Client 0, Client 0, Client 0] @ replicate 16 (Worker 0) @
     [Client 0, Client 0, Client 0, Worker 0, Worker 0, Worker 0, Client 0, Client 2]"

text \<open>
  A second file system: two cards that both have the folder \<^verbatim>\<open>VID_1\<close>, the second also
  \<^verbatim>\<open>PIC_7\<close>; the destination already has \<^verbatim>\<open>VID_1\<close>, with a stale copy of \<^verbatim>\<open>f\<close> (5 bytes
  for 10) and a complete copy of \<^verbatim>\<open>g\<close>.
\<close>

definition two_cards_fs :: pfs where
  "two_cards_fs =
     [(''/'', Dir), (''/A'', Dir), (''/A/VID_1'', Dir), (''/A/VID_1/f'', File 10),
      (''/A/VID_1/h'', File 7), (''/B'', Dir), (''/B/VID_1'', Dir), (''/B/VID_1/g'', File 20),
      (''/B/PIC_7'', Dir), (''/dst'', Dir), (''/dst/VID_1'', Dir), (''/dst/VID_1/f'', File 5),
      (''/dst/VID_1/g'', File 20)]"

subsection \<open>Accounting for queue entries\<close>

text \<open>
  The predicates of the invariants below. An entry is \<open>valid\<close> when the worker's test
  lets it through. A worker is \<open>inflight\<close> from the moment it holds a valid entry until
  it has written the counter or caught an exception; it is \<open>busy\<close> from taking an entry
  until \<^verbatim>\<open>task_done()\<close>; \<open>holds_lock\<close> is between acquiring and releasing the lock.
\<close>

definition valid :: "task \<Rightarrow> bool" where
  "valid x = (truthy (fst x) \<and> truthy (snd x))"

fun inflight :: "wpc \<Rightarrow> bool" where
  "inflight (Got x) = valid x"
| "inflight (InCopy source dest) = True"
| "inflight WantLock = True"
| "inflight Locked = True"
| "inflight (Loaded n) = True"
| "inflight c = False"

fun holds_lock :: "wpc \<Rightarrow> bool" where
  "holds_lock Locked = True"
| "holds_lock (Loaded n) = True"
| "holds_lock Stored = True"
| "holds_lock c = False"

fun busy :: "wpc \<Rightarrow> bool" where
  "busy Idle = False"
| "busy Exited = False"
| "busy Died = False"
| "busy c = True"

fun is_caught :: "wpc \<Rightarrow> bool" where
  "is_caught (Caught e) = True"
| "is_caught c = False"

fun is_copy_error :: "msg \<Rightarrow> bool" where
  "is_copy_error (ErrorCopying e) = True"
| "is_copy_error m = False"

fun valid_put :: "action \<Rightarrow> bool" where
  "valid_put (Put x) = valid x"
| "valid_put a = False"

definition how_many :: "('a \<Rightarrow> bool) \<Rightarrow> 'a list \<Rightarrow> nat" where
  "how_many P xs = length (filter P xs)"

text \<open>
  The lock protects the counter: whoever is between acquiring and releasing is the
  holder, and a value read under the lock is still the value of the counter.
\<close>

definition lock_ok :: "'fs state \<Rightarrow> bool" where
  "lock_ok s \<longleftrightarrow>
     (\<forall>t < length (workers s).
        (holds_lock (workers s ! t) \<longrightarrow> lock s = Some t) \<and>
        (\<forall>n. workers s ! t = Loaded n \<longrightarrow> n = copied_file_count s))"

text \<open>
  Every completed copy, every valid entry still queued, held by a worker or still to be
  put by the client.
\<close>

definition accounted :: "'fs state \<Rightarrow> nat" where
  "accounted s =
     copied_file_count s + how_many valid (file_queue s) + how_many inflight (workers s)
       + how_many valid_put (pending s)"

definition session_inv :: "'fs state \<Rightarrow> bool" where
  "session_inv s \<longleftrightarrow> lock_ok s \<and> accounted s \<le> total_file_count s"

text \<open>
  The two phases of a session after the planner. Until \<^verbatim>\<open>wait()\<close> has returned the
  client starts workers (\<open>starter\<close>) and has \<^verbatim>\<open>wait()\<close>, \<^verbatim>\<open>stop()\<close> and the report before
  it; every entry is one the planner has put, and a worker is \<open>steady\<close>: nowhere a
  sentinel or the stopping flag would bring it. After \<^verbatim>\<open>wait()\<close> the client is
  \<open>closing\<close>: it puts sentinels only; a worker is \<open>resting\<close>: at \<^verbatim>\<open>get()\<close>, on its way
  out with a sentinel, or ended.
\<close>

fun starter :: "action \<Rightarrow> bool" where
  "starter (Start n) = True"
| "starter Spawn = True"
| "starter a = False"

fun closing :: "action \<Rightarrow> bool" where
  "closing Stop = True"
| "closing (Put x) = (\<not> valid x)"
| "closing (Join t d) = True"
| "closing Report = True"
| "closing ReportNothing = True"
| "closing a = False"

fun steady :: "wpc \<Rightarrow> bool" where
  "steady (Got x) = valid x"
| "steady (Finally b) = (\<not> b)"
| "steady Exited = False"
| "steady Died = False"
| "steady c = True"

fun resting :: "wpc \<Rightarrow> bool" where
  "resting Idle = True"
| "resting (Got x) = (\<not> valid x)"
| "resting (Finally b) = b"
| "resting Exited = True"
| "resting Died = True"
| "resting c = False"

text \<open>
  Every entry is in exactly one place: counted, reported as failed, caught and about to
  be reported, still queued, or held by a worker that has not yet counted or failed.
\<close>

definition settled :: "'fs state \<Rightarrow> nat" where
  "settled s =
     copied_file_count s + how_many is_copy_error (logs s) + how_many is_caught (workers s)
       + length (file_queue s) + how_many inflight (workers s)"

definition pool_inv :: "nat \<Rightarrow> 'fs state \<Rightarrow> bool" where
  "pool_inv k s \<longleftrightarrow>
     lock_ok s \<and> \<not> stopping s \<and>
     (\<exists>pre. pending s = pre @ [Wait, Stop, Report] \<and> list_all starter pre) \<and>
     list_all valid (file_queue s) \<and> list_all steady (workers s) \<and>
     unfinished_tasks s = length (file_queue s) + how_many busy (workers s) \<and>
     settled s = k \<and> total_file_count s = k"

definition drained_inv :: "nat \<Rightarrow> 'fs state \<Rightarrow> bool" where
  "drained_inv k s \<longleftrightarrow>
     list_all closing (pending s) \<and> list_all (\<lambda>x. \<not> valid x) (file_queue s) \<and>
     list_all resting (workers s) \<and>
     copied_file_count s + how_many is_copy_error (logs s) = k \<and> total_file_count s = k"

definition exact_inv :: "nat \<Rightarrow> 'fs state \<Rightarrow> bool" where
  "exact_inv k s \<longleftrightarrow> pool_inv k s \<or> drained_inv k s"

text \<open>What \<^verbatim>\<open>init\<close> may change: it appends planned entries, each counted once.\<close>

definition grows :: "'fs state \<Rightarrow> 'fs state \<Rightarrow> bool" where
  "grows s s1 \<longleftrightarrow>
     (\<exists>new. file_queue s1 = file_queue s @ new \<and>
        total_file_count s1 = total_file_count s + length new \<and>
        unfinished_tasks s1 = unfinished_tasks s + length new) \<and>
     copied_file_count s1 = copied_file_count s \<and> workers s1 = workers s \<and>
     threads s1 = threads s \<and> lock s1 = lock s \<and> stopping s1 = stopping s \<and>
     pending s1 = pending s"

text \<open>
  The same for a planner whose entries all pass the worker's test, and which logs no
  \<^verbatim>\<open>Error copying:\<close> line of a worker.
\<close>

definition plans :: "'fs state \<Rightarrow> 'fs state \<Rightarrow> bool" where
  "plans s s1 \<longleftrightarrow>
     (\<exists>new. file_queue s1 = file_queue s @ new \<and> list_all valid new \<and>
        total_file_count s1 = total_file_count s + length new \<and>
        unfinished_tasks s1 = unfinished_tasks s + length new) \<and>
     copied_file_count s1 = copied_file_count s \<and> workers s1 = workers s \<and>
     lock s1 = lock s \<and> stopping s1 = stopping s \<and>
     how_many is_copy_error (logs s1) = how_many is_copy_error (logs s)"

subsection \<open>Two more examples\<close>

text \<open>
  The first example with a stale link at the destination: \<^verbatim>\<open>/dst/VID_1/ln\<close> is there
  already and points nowhere, so \<^verbatim>\<open>os.path.exists\<close> is false for it and the planner
  plans both files of the card. The schedule is what follows the planner with one
  worker: the client starts the worker, the worker handles both entries (the second
  copy raises), and the client's \<^verbatim>\<open>wait()\<close> returns.
\<close>

definition stale_link_fs :: pfs where
  "stale_link_fs = demo_fs @ [(''/dst/VID_1'', Dir), (''/dst/VID_1/ln'', Symlink ''/gone'')]"

definition stale_link_run :: "move list" where
  "stale_link_run = [Client 0, Client 0] @ replicate 13 (Worker 0) @ [Client 0]"







section \<open>Properties\<close>

subsection \<open>Rounding and the reported duration\<close>

lemma round_gb_bounds:
  "(10 * b) div 1073741824 \<le> round_gb b \<and> round_gb b \<le> (10 * b) div 1073741824 + 1"
  by (simp add: round_gb_def Let_def)

lemma round_gb_mono:
  assumes "a \<le> b"
  shows "round_gb a \<le> round_gb b"
proof -
  define x where "x = 10 * a"
  define y where "y = 10 * b"
  have xy: "x \<le> y" using assms by (simp add: x_def y_def)
  have q: "x div 1073741824 \<le> y div 1073741824" using xy by (rule div_le_mono)
  consider (lt) "x div 1073741824 < y div 1073741824" | (eq) "x div 1073741824 = y div 1073741824"
    using q by linarith
  then show ?thesis
  proof cases
    case lt
    have "round_gb a \<le> x div 1073741824 + 1" using round_gb_bounds [of a] by (simp add: x_def)
    also have "\<dots> \<le> y div 1073741824" using lt by simp
    also have "\<dots> \<le> round_gb b" using round_gb_bounds [of b] by (simp add: y_def)
    finally show ?thesis .
  next
    case eq
    have "x mod 1073741824 \<le> y mod 1073741824"
      using xy eq by (metis add_le_cancel_left div_mult_mod_eq mult.commute)
    then show ?thesis using eq
      by (simp add: round_gb_def Let_def x_def [symmetric] y_def [symmetric])
  qed
qed

lemma duration_floor: "0 \<le> e \<Longrightarrow> duration e = \<lfloor>e\<rfloor> + 1"
  by (simp add: duration_def py_int_def)

lemma duration_ceiling:
  assumes "0 \<le> e"
  shows "duration e = max 1 \<lceil>e\<rceil> \<longleftrightarrow> e = 0 \<or> e \<notin> \<int>"
proof (cases "e \<in> \<int>")
  case True
  then have c: "\<lceil>e\<rceil> = \<lfloor>e\<rfloor>" by (simp add: ceiling_altdef)
  have "0 \<le> \<lfloor>e\<rfloor>" using assms by simp
  moreover have "\<lfloor>e\<rfloor> = 0 \<longleftrightarrow> e = 0"
    using True by (metis Ints_cases floor_of_int of_int_0 of_int_floor_cancel)
  ultimately show ?thesis using True assms c by (auto simp: duration_def py_int_def max_def)
next
  case False
  have ne: "e \<noteq> real_of_int \<lfloor>e\<rfloor>" using False by (metis Ints_of_int)
  then have c: "\<lceil>e\<rceil> = \<lfloor>e\<rfloor> + 1" by (simp add: ceiling_altdef)
  have "0 \<le> \<lfloor>e\<rfloor>" using assms by simp
  then show ?thesis using False assms c by (simp add: duration_def py_int_def max_def)
qed

subsection \<open>The examples, evaluated\<close>

lemma demo_exists: "os_path_exists (posix c) demo_fs ''/dst''"
  by code_simp

lemma demo_used: "get_used_space (posix c) demo_fs [''/A''] = 1000"
  by code_simp

lemma demo_free: "get_free_space (posix c) demo_fs ''/dst'' = c - 1000"
  by (simp add: posix_def posix_free_space_def demo_fs_def)

lemma demo_on_start:
  "on_start (posix c) [''/A''] ''/dst'' demo_fs =
     (if round_gb (c - 1000) \<le> round_gb 1000
      then ShowError (NotEnoughSpace (round_gb 1000) (round_gb (c - 1000))) demo_fs
      else Launched (new_session demo_fs [CopyingGB (round_gb 1000)] [Init]))"
  by (simp add: on_start_def ensure_target_def demo_exists demo_used demo_free)

lemma round_gb_1000: "round_gb 1000 = 0"
  by (simp add: round_gb_def)

lemma demo_launched:
  "on_start (posix 5000000000) [''/A''] ''/dst'' demo_fs =
     Launched (new_session demo_fs [CopyingGB 0] [Init])"
  by (simp add: demo_on_start round_gb_1000) (simp add: round_gb_def)

lemma demo_exec:
  "map_option logs (exec (posix c) [''/A''] ''/dst'' demo_run (new_session demo_fs [CopyingGB 0] [Init])) =
     Some [CopyingGB 0, CollectingSourceSubfolders, CreatingTargetFolders, PreparingFiles,
           Prepared 2, Copying ''/A/VID_1/f'', Copying ''/A/VID_1/ln'', Finished 2 2 3]"
  by code_simp

subsection \<open>The summary line\<close>

text \<open>
  C9 (as amended). When at least one task was planned (only then does \<^verbatim>\<open>start_copy\<close>
  reach the report), the final summary reports the copied and the planned file count
  and \<^verbatim>\<open>int(end - start) + 1\<close> seconds. For a clock difference that is not negative
  this is the floor plus one, so at least 1; it is the ceiling with minimum 1 exactly
  when the difference is zero or not a whole number, and one more than that for a
  whole number of seconds from 1 on.
\<close>

theorem report_duration:
  assumes "pending s = Report # k"
  shows "client_step os sources target elapsed s =
           Some (s\<lparr>logs := logs s @ [Finished (copied_file_count s) (total_file_count s) (duration elapsed)],
                   pending := k\<rparr>)
         \<and> (Report \<in> set (after_init sources s1) \<longleftrightarrow> 0 < total_file_count s1)
         \<and> (0 \<le> elapsed \<longrightarrow>
              duration elapsed = \<lfloor>elapsed\<rfloor> + 1 \<and> 1 \<le> duration elapsed \<and>
              (duration elapsed = max 1 \<lceil>elapsed\<rceil> \<longleftrightarrow> elapsed = 0 \<or> elapsed \<notin> \<int>))"
proof -
  have "client_step os sources target elapsed s =
           Some (s\<lparr>logs := logs s @ [Finished (copied_file_count s) (total_file_count s) (duration elapsed)],
                   pending := k\<rparr>)"
    using assms by (simp add: client_step_def log_line_def)
  moreover have "Report \<in> set (after_init sources s1) \<longleftrightarrow> 0 < total_file_count s1"
    by (simp add: after_init_def)
  moreover have "0 \<le> elapsed \<longrightarrow> duration elapsed = \<lfloor>elapsed\<rfloor> + 1 \<and> 1 \<le> duration elapsed"
    by (simp add: duration_floor)
  ultimately show ?thesis using duration_ceiling [of elapsed] by blast
qed

text \<open>The report of a session that took two and a half seconds says 3.\<close>

theorem report_duration_witness:
  "map_option logs
     (client_step (posix 0) [''/A''] ''/dst'' (5 / 2)
        (new_session demo_fs [] [Report]\<lparr>total_file_count := 1, copied_file_count := 1\<rparr>)) =
     Some [Finished 1 1 3]
   \<and> duration (5 / 2) = max 1 \<lceil>5 / 2 :: real\<rceil>"
proof -
  have p: "pending (new_session demo_fs [] [Report]\<lparr>total_file_count := 1, copied_file_count := 1\<rparr>) = Report # []"
    by (simp add: new_session_def)
  have d: "duration (5 / 2) = 3" by (simp add: duration_def py_int_def)
  show ?thesis
    using report_duration [OF p, where os = "posix 0" and sources = "[''/A'']"
        and target = "''/dst''" and elapsed = "5 / 2" and ?s1.0 = "new_session demo_fs [] []"] d
    by (simp add: new_session_def)
qed

text \<open>
  The claim as first stated has the seconds rounded up to the next integer: a session
  of exactly two seconds would report 2. The session of the example reports 3.
\<close>

theorem report_ceiling_counterexample:
  "map_option logs (session (posix 5000000000) [''/A''] ''/dst'' demo_fs demo_run) =
     Some [CopyingGB 0, CollectingSourceSubfolders, CreatingTargetFolders, PreparingFiles,
           Prepared 2, Copying ''/A/VID_1/f'', Copying ''/A/VID_1/ln'', Finished 2 2 3]
   \<and> (3 :: int) \<noteq> max 1 \<lceil>2 :: real\<rceil>"
  by (simp add: session_def demo_launched demo_exec)

subsection \<open>The free-space check\<close>

lemma ensure_target_cases:
  "ensure_target os target_dir fs0 = fs0 \<or> os_mkdir os fs0 target_dir = Inr (ensure_target os target_dir fs0)"
  by (simp add: ensure_target_def split: sum.splits)

text \<open>
  C6 (as amended). Before any session exists, \<^verbatim>\<open>_on_start\<close> compares the free space
  of the destination with the space the sources use, both rounded to a tenth of a GiB,
  and returns with the dialog that names the two rounded values unless the rounded
  free space is strictly greater. So it always returns when the free bytes are not more
  than the required bytes; it also returns when they are more by too little to change
  the rounded value. When it returns there is no session: nothing is planned and
  nothing is copied; the file system is as it was, or with the target directory
  created by the \<^verbatim>\<open>os.mkdir\<close> before the check.
\<close>

theorem on_start_space_check:
  assumes "sources_dirs \<noteq> []" and "target_dir \<noteq> []"
    and "os_path_exists os (ensure_target os target_dir fs0) target_dir"
  shows "(let fs1 = ensure_target os target_dir fs0;
              required = get_used_space os fs1 sources_dirs;
              free = get_free_space os fs1 target_dir
          in (if round_gb free \<le> round_gb required
              then on_start os sources_dirs target_dir fs0 =
                     ShowError (NotEnoughSpace (round_gb required) (round_gb free)) fs1
                   \<and> (\<forall>ms. session os sources_dirs target_dir fs0 ms = None)
              else on_start os sources_dirs target_dir fs0 =
                     Launched (new_session fs1 [CopyingGB (round_gb required)] [Init]))
             \<and> (free \<le> required \<longrightarrow> round_gb free \<le> round_gb required)
             \<and> (fs1 = fs0 \<or> os_mkdir os fs0 target_dir = Inr fs1))"
  using assms ensure_target_cases [of os target_dir fs0]
  by (simp add: on_start_def session_def Let_def round_gb_mono)

text \<open>With 500 bytes free for 1000 bytes to copy there is the dialog and no session.\<close>

theorem on_start_space_check_witness:
  "on_start (posix 1500) [''/A''] ''/dst'' demo_fs = ShowError (NotEnoughSpace 0 0) demo_fs
   \<and> session (posix 1500) [''/A''] ''/dst'' demo_fs demo_run = None
   \<and> get_free_space (posix 1500) demo_fs ''/dst'' \<le> get_used_space (posix 1500) demo_fs [''/A'']"
proof -
  have e: "ensure_target (posix 1500) ''/dst'' demo_fs = demo_fs"
    by (simp add: ensure_target_def demo_exists)
  have x: "os_path_exists (posix 1500) (ensure_target (posix 1500) ''/dst'' demo_fs) ''/dst''"
    by (simp add: e demo_exists)
  have r: "round_gb 500 = 0" by (simp add: round_gb_def)
  show ?thesis
    using on_start_space_check [of "[''/A'']" "''/dst''" "posix 1500" demo_fs, OF _ _ x]
    by (simp add: e demo_used demo_free round_gb_1000 r)
qed

text \<open>
  The claim as first stated lets a session through whenever the free bytes exceed the
  bytes to copy. With 1000 bytes to copy and 50 000 000 bytes free the code shows the
  dialog, required 0.0 GB and available 0.0 GB.
\<close>

theorem on_start_space_counterexample:
  "get_used_space (posix 50001000) demo_fs [''/A''] = 1000
   \<and> get_free_space (posix 50001000) demo_fs ''/dst'' = 50000000
   \<and> on_start (posix 50001000) [''/A''] ''/dst'' demo_fs =
       ShowError (NotEnoughSpace 0 0) demo_fs"
  by (simp add: demo_used demo_free demo_on_start round_gb_1000) (simp add: round_gb_def)

subsection \<open>One worker, one queue entry\<close>

lemma check_entry_falsy:
  "\<not> truthy source \<or> \<not> truthy dest \<Longrightarrow> check_entry t (source, dest) s = set_worker t (Finally True) s"
  by (cases source; cases dest) auto

lemma check_entry_stopping:
  "stopping s \<Longrightarrow> check_entry t x s = set_worker t (Finally True) s"
proof (cases x)
  case (Pair a b)
  assume st: "stopping s"
  show ?thesis using Pair st by (cases a; cases b) auto
qed

text \<open>
  C10. A worker that takes from the queue an entry of which either field is empty or
  \<^verbatim>\<open>None\<close> (whether or not it is the pair \<^verbatim>\<open>(None, None)\<close> that \<^verbatim>\<open>stop\<close> puts) leaves
  its loop: after the test and \<^verbatim>\<open>task_done()\<close> the thread has ended and cannot move
  again. Nothing was copied, the counter was not touched and nothing was logged.
\<close>

theorem empty_field_ends_worker:
  assumes "t < length (workers s)" and "workers s ! t = Idle"
    and "file_queue s = (source, dest) # q"
    and "\<not> truthy source \<or> \<not> truthy dest"
    and "0 < unfinished_tasks s"
  shows "exec os sources target [Worker t, Worker t, Worker t] s =
           Some (s\<lparr>file_queue := q, unfinished_tasks := unfinished_tasks s - 1,
                   workers := (workers s)[t := Exited]\<rparr>)
         \<and> worker_step os t (s\<lparr>file_queue := q, unfinished_tasks := unfinished_tasks s - 1,
                   workers := (workers s)[t := Exited]\<rparr>) = None"
  using assms
  by (simp add: worker_step_def set_worker_def check_entry_falsy)

text \<open>An entry with the empty string as source and a valid destination ends the worker.\<close>

theorem empty_field_ends_worker_witness:
  "exec (posix 0) [] [] [Worker 0, Worker 0, Worker 0]
     (new_session demo_fs [] []\<lparr>file_queue := [(Some [], Some ''/dst/'')], unfinished_tasks := 1,
        workers := [Idle], threads := [0]\<rparr>) =
     Some (new_session demo_fs [] []\<lparr>file_queue := [], unfinished_tasks := 0,
        workers := [Exited], threads := [0]\<rparr>)"
  using empty_field_ends_worker [of 0 "new_session demo_fs [] []\<lparr>file_queue := [(Some [], Some ''/dst/'')], unfinished_tasks := 1,
        workers := [Idle], threads := [0]\<rparr>" "Some []" "Some ''/dst/''" "[]" "posix 0" "[]" "[]"]
  by (simp add: new_session_def)

subsection \<open>Shutting the pool down\<close>

lemma exec_append:
  "exec os sources target (a @ b) s =
     (case exec os sources target a s of None \<Rightarrow> None | Some s1 \<Rightarrow> exec os sources target b s1)"
  by (induction a arbitrary: s) (auto split: option.splits)

lemma exec_puts:
  "pending s = map Put xs @ k \<Longrightarrow>
   exec os sources target (replicate (length xs) (Client elapsed)) s =
     Some (s\<lparr>file_queue := file_queue s @ xs,
             unfinished_tasks := unfinished_tasks s + length xs, pending := k\<rparr>)"
proof (induction xs arbitrary: s)
  case Nil
  then show ?case by simp
next
  case (Cons x xs)
  let ?s1 = "(put (fst x) (snd x) s)\<lparr>pending := map Put xs @ k\<rparr>"
  have "client_step os sources target elapsed s = Some ?s1"
    using Cons.prems by (simp add: client_step_def)
  moreover have "pending ?s1 = map Put xs @ k" by simp
  ultimately show ?case using Cons.IH [of ?s1] by (simp add: put_def)
qed

lemma exec_joins:
  "pending s = map (\<lambda>t. Join t d) ts @ k \<Longrightarrow>
   exec os sources target (replicate (length ts) (Client elapsed)) s = Some (s\<lparr>pending := k\<rparr>)"
proof (induction ts arbitrary: s)
  case Nil
  then show ?case by simp
next
  case (Cons t ts)
  let ?s1 = "s\<lparr>pending := map (\<lambda>t. Join t d) ts @ k\<rparr>"
  have "client_step os sources target elapsed s = Some ?s1"
    using Cons.prems by (simp add: client_step_def)
  then show ?case using Cons.IH [of ?s1] by simp
qed

lemma stop_actions_eq:
  "stop_actions ths = map Put (replicate (length ths) (None, None)) @ map (\<lambda>t. Join t 2) ths"
  by (simp add: stop_actions_def map_replicate_const)

lemma falsy_entry_run:
  assumes "t < length (workers s)" and "workers s ! t = Idle"
    and "file_queue s = (source, dest) # q"
    and "\<not> truthy source \<or> \<not> truthy dest"
    and "0 < unfinished_tasks s"
  shows "exec os sources target [Worker t, Worker t, Worker t] s =
           Some (s\<lparr>file_queue := q, unfinished_tasks := unfinished_tasks s - 1,
                   workers := (workers s)[t := Exited]\<rparr>)"
  using assms
  by (simp add: worker_step_def set_worker_def check_entry_falsy)

text \<open>
  C4. \<^verbatim>\<open>stop\<close> sets the stopping flag and has then, for the list \<^verbatim>\<open>self._threads\<close> of
  the threads that were started, exactly one \<^verbatim>\<open>put((None, None))\<close> for each thread to do,
  followed by one \<^verbatim>\<open>join(2)\<close> for each thread. Run without a worker taking an entry in
  between, it leaves the queue longer by one \<^verbatim>\<open>(None, None)\<close> for each thread. A worker
  that takes such an entry leaves its loop at once: the thread ends, with the counter
  of copied files as it was.
\<close>

theorem stop_sentinels:
  assumes "pending s = Stop # k"
  shows "client_step os sources target elapsed s =
           Some (s\<lparr>stopping := True, pending := stop_actions (threads s) @ k\<rparr>)
         \<and> stop_actions (threads s) =
             replicate (length (threads s)) (Put (None, None)) @ map (\<lambda>t. Join t 2) (threads s)
         \<and> exec os sources target (replicate (1 + 2 * length (threads s)) (Client elapsed)) s =
             Some (s\<lparr>stopping := True,
                     file_queue := file_queue s @ replicate (length (threads s)) (None, None),
                     unfinished_tasks := unfinished_tasks s + length (threads s),
                     pending := k\<rparr>)
         \<and> (\<forall>t s1 q. t < length (workers s1) \<and> workers s1 ! t = Idle \<and>
                file_queue s1 = (None, None) # q \<and> 0 < unfinished_tasks s1 \<longrightarrow>
                exec os sources target [Worker t, Worker t, Worker t] s1 =
                  Some (s1\<lparr>file_queue := q, unfinished_tasks := unfinished_tasks s1 - 1,
                           workers := (workers s1)[t := Exited]\<rparr>))"
proof -
  let ?n = "length (threads s)"
  let ?s1 = "s\<lparr>stopping := True, pending := stop_actions (threads s) @ k\<rparr>"
  let ?s2 = "?s1\<lparr>file_queue := file_queue ?s1 @ replicate ?n (None, None),
                 unfinished_tasks := unfinished_tasks ?s1 + length (replicate ?n (None :: string option, None :: string option)),
                 pending := map (\<lambda>t. Join t 2) (threads s) @ k\<rparr>"
  have a: "client_step os sources target elapsed s = Some ?s1"
    using assms by (simp add: client_step_def)
  have b: "stop_actions (threads s) =
             replicate ?n (Put (None, None)) @ map (\<lambda>t. Join t 2) (threads s)"
    by (simp add: stop_actions_def map_replicate_const)
  have p1: "pending ?s1 = map Put (replicate ?n (None, None)) @ (map (\<lambda>t. Join t 2) (threads s) @ k)"
    by (simp add: stop_actions_eq)
  have c1: "exec os sources target (replicate ?n (Client elapsed)) ?s1 = Some ?s2"
    using exec_puts [OF p1, of os sources target elapsed] by simp
  have c2: "exec os sources target (replicate ?n (Client elapsed)) ?s2 = Some (?s2\<lparr>pending := k\<rparr>)"
    using exec_joins [of ?s2 2 "threads s" k os sources target elapsed] by simp
  have r: "replicate (1 + 2 * ?n) (Client elapsed) =
             Client elapsed # (replicate ?n (Client elapsed) @ replicate ?n (Client elapsed))"
    by (simp add: replicate_add [symmetric] mult_2)
  have c: "exec os sources target (replicate (1 + 2 * ?n) (Client elapsed)) s =
             Some (s\<lparr>stopping := True,
                     file_queue := file_queue s @ replicate ?n (None, None),
                     unfinished_tasks := unfinished_tasks s + ?n,
                     pending := k\<rparr>)"
    unfolding r using a c1 c2 by (simp add: exec_append)
  have d: "\<forall>t s1 q. t < length (workers s1) \<and> workers s1 ! t = Idle \<and>
                file_queue s1 = (None, None) # q \<and> 0 < unfinished_tasks s1 \<longrightarrow>
                exec os sources target [Worker t, Worker t, Worker t] s1 =
                  Some (s1\<lparr>file_queue := q, unfinished_tasks := unfinished_tasks s1 - 1,
                           workers := (workers s1)[t := Exited]\<rparr>)"
  proof (intro allI impI)
    fix t :: nat and s1 :: "'a state" and q
    assume h: "t < length (workers s1) \<and> workers s1 ! t = Idle \<and>
                file_queue s1 = (None, None) # q \<and> 0 < unfinished_tasks s1"
    show "exec os sources target [Worker t, Worker t, Worker t] s1 =
                  Some (s1\<lparr>file_queue := q, unfinished_tasks := unfinished_tasks s1 - 1,
                           workers := (workers s1)[t := Exited]\<rparr>)"
      by (rule falsy_entry_run [where source = None and dest = None]) (use h in auto)
  qed
  show ?thesis using a b c d by blast
qed

text \<open>A pool of two threads: two entries, two joins with timeout 2.\<close>

theorem stop_sentinels_witness:
  "exec (posix 0) [] [] [Client 0, Client 0, Client 0, Client 0, Client 0]
     (new_session demo_fs [] [Stop]\<lparr>workers := [Idle, Idle], threads := [0, 1]\<rparr>) =
   Some (new_session demo_fs [] []\<lparr>stopping := True, file_queue := [(None, None), (None, None)],
           unfinished_tasks := 2, workers := [Idle, Idle], threads := [0, 1]\<rparr>)
   \<and> stop_actions [0, 1] = [Put (None, None), Put (None, None), Join 0 2, Join 1 2]"
proof -
  let ?s0 = "new_session demo_fs [] [Stop]\<lparr>workers := [Idle, Idle], threads := [0, 1]\<rparr>"
  have p: "pending ?s0 = Stop # []"
    by (simp add: new_session_def)
  have t: "threads ?s0 = [0, 1]"
    by (simp add: new_session_def)
  have r: "replicate (1 + 2 * length [0 :: nat, 1]) (Client 0) =
             [Client 0, Client 0, Client 0, Client 0, Client 0]"
    by (simp add: numeral_eq_Suc)
  have r2: "replicate (length [0 :: nat, 1]) (x :: 'b) = [x, x]" for x
    by simp
  note th = stop_sentinels [OF p, of "posix 0" "[]" "[]" 0, unfolded t r r2]
  have c: "exec (posix 0) [] [] [Client 0, Client 0, Client 0, Client 0, Client 0] ?s0 =
             Some (?s0\<lparr>stopping := True, file_queue := file_queue ?s0 @ [(None, None), (None, None)],
                     unfinished_tasks := unfinished_tasks ?s0 + length [0 :: nat, 1], pending := []\<rparr>)"
    using th by blast
  have b: "stop_actions [0, 1] = [Put (None, None), Put (None, None)] @ map (\<lambda>t. Join t 2) [0, 1]"
    using th by blast
  show ?thesis
    unfolding c b by (simp add: new_session_def)
qed

subsection \<open>A worker and an entry with both fields set\<close>

lemma copy_run_prefix:
  assumes "t < length (workers s)" and "workers s ! t = Idle"
    and "file_queue s = (Some source, Some dest) # q"
    and "source \<noteq> []" and "dest \<noteq> []" and "\<not> stopping s"
  shows "exec os sources target [Worker t, Worker t] s =
           Some (s\<lparr>logs := logs s @ [Copying source], file_queue := q,
                   workers := (workers s)[t := InCopy source dest]\<rparr>)"
  using assms by (simp add: worker_step_def set_worker_def log_line_def)

text \<open>
  C3. A worker takes an entry with a source and a destination that are not empty (any
  other entry ends the worker, see above), and the stopping flag is not set when the
  worker tests it. Then it logs the source and calls
  \<^verbatim>\<open>shutil.copy(source, dest, follow_symlinks=False)\<close>; if that call returns, the file
  system is what the call made of it, the worker takes the lock, and the counter of
  copied files goes up by exactly one while the worker holds the lock (after four
  steps it holds the lock with the counter untouched, after six the counter is one
  more and the lock is still held, after eight the lock is free and \<^verbatim>\<open>task_done()\<close>
  has been called). That the copy lands in the destination directory under the name
  of the source and that a link is copied as a link is what \<^verbatim>\<open>shutil.copy\<close> does when
  called this way.
\<close>

theorem worker_copies_task:
  assumes "t < length (workers s)" and "workers s ! t = Idle"
    and "file_queue s = (Some source, Some dest) # q"
    and "source \<noteq> []" and "dest \<noteq> []" and "\<not> stopping s"
    and "lock s = None" and "0 < unfinished_tasks s"
    and "shutil_copy os (fs s) source dest False = Inr fs1"
  shows "exec os sources target [Worker t, Worker t, Worker t, Worker t] s =
           Some (s\<lparr>fs := fs1, logs := logs s @ [Copying source], file_queue := q,
                   lock := Some t, workers := (workers s)[t := Locked]\<rparr>)
         \<and> exec os sources target [Worker t, Worker t, Worker t, Worker t, Worker t, Worker t] s =
           Some (s\<lparr>fs := fs1, logs := logs s @ [Copying source], file_queue := q,
                   copied_file_count := copied_file_count s + 1,
                   lock := Some t, workers := (workers s)[t := Stored]\<rparr>)
         \<and> exec os sources target
               [Worker t, Worker t, Worker t, Worker t, Worker t, Worker t, Worker t, Worker t] s =
           Some (s\<lparr>fs := fs1, logs := logs s @ [Copying source], file_queue := q,
                   unfinished_tasks := unfinished_tasks s - 1,
                   copied_file_count := copied_file_count s + 1,
                   workers := (workers s)[t := Idle]\<rparr>)"
proof -
  let ?s2 = "s\<lparr>logs := logs s @ [Copying source], file_queue := q,
                workers := (workers s)[t := InCopy source dest]\<rparr>"
  have a: "exec os sources target [Worker t, Worker t] s = Some ?s2"
    by (rule copy_run_prefix) fact+
  have b: "exec os sources target ([Worker t, Worker t] @ ms) s = exec os sources target ms ?s2" for ms
    using a by (simp only: exec_append option.case)
  have "exec os sources target ([Worker t, Worker t] @ [Worker t, Worker t]) s =
           Some (s\<lparr>fs := fs1, logs := logs s @ [Copying source], file_queue := q,
                   lock := Some t, workers := (workers s)[t := Locked]\<rparr>)"
    unfolding b using assms by (simp add: worker_step_def set_worker_def)
  moreover have "exec os sources target ([Worker t, Worker t] @ [Worker t, Worker t, Worker t, Worker t]) s =
           Some (s\<lparr>fs := fs1, logs := logs s @ [Copying source], file_queue := q,
                   copied_file_count := copied_file_count s + 1,
                   lock := Some t, workers := (workers s)[t := Stored]\<rparr>)"
    unfolding b using assms by (simp add: worker_step_def set_worker_def)
  moreover have "exec os sources target
             ([Worker t, Worker t] @ [Worker t, Worker t, Worker t, Worker t, Worker t, Worker t]) s =
           Some (s\<lparr>fs := fs1, logs := logs s @ [Copying source], file_queue := q,
                   unfinished_tasks := unfinished_tasks s - 1,
                   copied_file_count := copied_file_count s + 1,
                   workers := (workers s)[t := Idle]\<rparr>)"
    unfolding b using assms by (simp add: worker_step_def set_worker_def)
  ultimately show ?thesis by simp
qed

text \<open>
  When \<^verbatim>\<open>shutil.copy\<close> raises, the worker logs the text of the exception (the line
  \<^verbatim>\<open>Error copying: <reason>\<close>, which holds nothing but that text); the counter of
  copied files and the file system are as they were, the entry is marked done, no other
  thread is touched, and the worker is back at \<^verbatim>\<open>get()\<close> for the next entry.
\<close>

lemma worker_survives_copy_error:
  assumes "t < length (workers s)" and "workers s ! t = Idle"
    and "file_queue s = (Some source, Some dest) # q"
    and "source \<noteq> []" and "dest \<noteq> []" and "\<not> stopping s"
    and "0 < unfinished_tasks s"
    and "shutil_copy os (fs s) source dest False = Inl e"
  shows "exec os sources target [Worker t, Worker t, Worker t, Worker t, Worker t] s =
           Some (s\<lparr>logs := logs s @ [Copying source, ErrorCopying e], file_queue := q,
                   unfinished_tasks := unfinished_tasks s - 1,
                   workers := (workers s)[t := Idle]\<rparr>)"
proof -
  let ?s2 = "s\<lparr>logs := logs s @ [Copying source], file_queue := q,
                workers := (workers s)[t := InCopy source dest]\<rparr>"
  have a: "exec os sources target [Worker t, Worker t] s = Some ?s2"
    by (rule copy_run_prefix) fact+
  have b: "exec os sources target ([Worker t, Worker t] @ ms) s = exec os sources target ms ?s2" for ms
    using a by (simp only: exec_append option.case)
  have "exec os sources target ([Worker t, Worker t] @ [Worker t, Worker t, Worker t]) s =
           Some (s\<lparr>logs := logs s @ [Copying source, ErrorCopying e], file_queue := q,
                   unfinished_tasks := unfinished_tasks s - 1,
                   workers := (workers s)[t := Idle]\<rparr>)"
    unfolding b using assms by (simp add: worker_step_def set_worker_def log_line_def)
  then show ?thesis by simp
qed

subsection \<open>The two worker runs on the example platform\<close>

lemma demo_copy_link:
  "shutil_copy (posix c) demo_fs ''/A/VID_1/ln'' ''/dst/'' False =
     Inr (demo_fs @ [(''/dst/ln'', Symlink ''/A/VID_1/f'')])"
  by code_simp

lemma demo_copy_missing:
  "shutil_copy (posix c) demo_fs ''/A/VID_1/gone'' ''/dst/'' False =
     Inl (FileNotFoundError ''/A/VID_1/gone'')"
  by code_simp

text \<open>
  On the example platform the link \<^verbatim>\<open>/A/VID_1/ln\<close> arrives in \<^verbatim>\<open>/dst\<close> under its own
  name and as a link, and the counter is 1.
\<close>

theorem worker_copies_task_witness:
  "exec (posix 0) [] []
     [Worker 0, Worker 0, Worker 0, Worker 0, Worker 0, Worker 0, Worker 0, Worker 0]
     (new_session demo_fs [] []\<lparr>file_queue := [(Some ''/A/VID_1/ln'', Some ''/dst/'')],
        unfinished_tasks := 1, workers := [Idle], threads := [0]\<rparr>) =
   Some (new_session (demo_fs @ [(''/dst/ln'', Symlink ''/A/VID_1/f'')])
           [Copying ''/A/VID_1/ln''] []\<lparr>copied_file_count := 1, workers := [Idle], threads := [0]\<rparr>)"
proof -
  let ?s0 = "new_session demo_fs [] []\<lparr>file_queue := [(Some ''/A/VID_1/ln'', Some ''/dst/'')],
        unfinished_tasks := 1, workers := [Idle], threads := [0]\<rparr>"
  have cp: "shutil_copy (posix 0) (fs ?s0) ''/A/VID_1/ln'' ''/dst/'' False =
              Inr (demo_fs @ [(''/dst/ln'', Symlink ''/A/VID_1/f'')])"
    by (simp add: new_session_def demo_copy_link)
  have "exec (posix 0) [] []
          [Worker 0, Worker 0, Worker 0, Worker 0, Worker 0, Worker 0, Worker 0, Worker 0] ?s0 =
        Some (?s0\<lparr>fs := demo_fs @ [(''/dst/ln'', Symlink ''/A/VID_1/f'')],
                logs := logs ?s0 @ [Copying ''/A/VID_1/ln''], file_queue := [],
                unfinished_tasks := unfinished_tasks ?s0 - 1,
                copied_file_count := copied_file_count ?s0 + 1,
                workers := (workers ?s0)[0 := Idle]\<rparr>)"
    using worker_copies_task [where t = 0 and s = ?s0 and source = "''/A/VID_1/ln''"
        and dest = "''/dst/''" and q = "[]" and os = "posix 0" and sources = "[]"
        and target = "[]", OF _ _ _ _ _ _ _ _ cp]
    by (simp add: new_session_def)
  then show ?thesis by (simp add: new_session_def)
qed

text \<open>A source that is not there: two log lines, the counter stays 0, the worker goes on.\<close>

lemma missing_source_run:
  "exec (posix 0) [] [] [Worker 0, Worker 0, Worker 0, Worker 0, Worker 0]
     (new_session demo_fs [] []\<lparr>file_queue := [(Some ''/A/VID_1/gone'', Some ''/dst/'')],
        unfinished_tasks := 1, workers := [Idle], threads := [0]\<rparr>) =
   Some (new_session demo_fs
           [Copying ''/A/VID_1/gone'', ErrorCopying (FileNotFoundError ''/A/VID_1/gone'')] []
           \<lparr>workers := [Idle], threads := [0]\<rparr>)"
proof -
  let ?s0 = "new_session demo_fs [] []\<lparr>file_queue := [(Some ''/A/VID_1/gone'', Some ''/dst/'')],
        unfinished_tasks := 1, workers := [Idle], threads := [0]\<rparr>"
  have cp: "shutil_copy (posix 0) (fs ?s0) ''/A/VID_1/gone'' ''/dst/'' False =
              Inl (FileNotFoundError ''/A/VID_1/gone'')"
    by (simp add: new_session_def demo_copy_missing)
  have "exec (posix 0) [] [] [Worker 0, Worker 0, Worker 0, Worker 0, Worker 0] ?s0 =
        Some (?s0\<lparr>logs := logs ?s0 @ [Copying ''/A/VID_1/gone'',
                                          ErrorCopying (FileNotFoundError ''/A/VID_1/gone'')],
                file_queue := [],
                unfinished_tasks := unfinished_tasks ?s0 - 1,
                workers := (workers ?s0)[0 := Idle]\<rparr>)"
    using worker_survives_copy_error [where t = 0 and s = ?s0 and source = "''/A/VID_1/gone''"
        and dest = "''/dst/''" and q = "[]" and os = "posix 0" and sources = "[]"
        and target = "[]", OF _ _ _ _ _ _ _ cp]
    by (simp add: new_session_def)
  then show ?thesis by (simp add: new_session_def)
qed

subsection \<open>The planner: folders\<close>

text \<open>
  \<open>rev (remdups (rev xs))\<close> keeps of every element of \<open>xs\<close> its first occurrence, in the
  order of \<open>xs\<close>: the ordered set of the names in first-seen order.
\<close>

lemma first_seen_snoc:
  "rev (remdups (rev (xs @ [d]))) =
     (if d \<in> set xs then rev (remdups (rev xs)) else rev (remdups (rev xs)) @ [d])"
  by simp

lemma add_subdirs_first_seen:
  "add_subdirs ds (rev (remdups (rev xs))) = rev (remdups (rev (xs @ ds)))"
proof (induction ds arbitrary: xs)
  case Nil
  then show ?case by simp
next
  case (Cons d ds)
  have "add_subdirs (d # ds) (rev (remdups (rev xs))) =
          add_subdirs ds (rev (remdups (rev (xs @ [d]))))"
    by simp
  also have "\<dots> = rev (remdups (rev ((xs @ [d]) @ ds)))"
    by (rule Cons.IH)
  finally show ?case by simp
qed

lemma fold_prefixes_first_seen:
  "fold (\<lambda>p folders. add_subdirs (g p) folders) ps (rev (remdups (rev xs))) =
     rev (remdups (rev (xs @ concat (map g ps))))"
proof (induction ps arbitrary: xs)
  case Nil
  then show ?case by simp
next
  case (Cons p ps)
  show ?case using Cons.IH [of "xs @ g p"] by (simp add: add_subdirs_first_seen)
qed

lemma fold_sources_first_seen:
  "fold (\<lambda>s folders. fold (\<lambda>p folders. add_subdirs (g s p) folders) ps folders) ss
        (rev (remdups (rev xs))) =
     rev (remdups (rev (xs @ concat (map (\<lambda>s. concat (map (g s) ps)) ss))))"
proof (induction ss arbitrary: xs)
  case Nil
  then show ?case by simp
next
  case (Cons s ss)
  show ?case using Cons.IH [of "xs @ concat (map (g s) ps)"]
    by (simp add: fold_prefixes_first_seen)
qed

lemma collect_folders_first_seen:
  "collect_folders os f sources startswith =
     rev (remdups (rev (concat (map (\<lambda>s. concat (map (get_subdirs os f s) startswith)) sources))))"
  using fold_sources_first_seen [of "get_subdirs os f" startswith sources "[]"]
  by (simp add: collect_folders_def)

lemma init_creates_collected:
  "fst (init os sources target startswith s) =
     fst (create_folders os target (collect_folders os (fs s) sources startswith) (fs s))"
  by (simp add: init_def Let_def log_line_def split: prod.splits option.splits)

lemma distinct_count_le_1: "distinct xs \<Longrightarrow> count_list xs x \<le> 1"
  by (induction xs) auto

text \<open>
  The loop that creates the target folders, as a whole: it returns what the traced loop
  returns, calls \<^verbatim>\<open>os.mkdir\<close> only for folders of its list and for no folder twice when
  the list has none twice, calls it for no folder that exists, and never ends with
  \<^verbatim>\<open>FileExistsError\<close>.
\<close>

lemma traced_loop:
  "fst (create_folders_traced os target folders f) = create_folders os target folders f"
proof (induction folders arbitrary: f)
  case Nil
  then show ?case by simp
next
  case (Cons name folders)
  show ?case
    using Cons.IH
    by (simp add: create_folder_def Let_def case_prod_beta split: sum.splits)
qed

lemma traced_calls_subset:
  "set (snd (create_folders_traced os target folders f)) \<subseteq> set folders"
proof (induction folders arbitrary: f)
  case Nil
  then show ?case by simp
next
  case (Cons name folders)
  show ?case
    using Cons.IH
    by (auto simp: Let_def case_prod_beta split: sum.splits)
qed

lemma traced_calls_distinct:
  "distinct folders \<Longrightarrow> distinct (snd (create_folders_traced os target folders f))"
proof (induction folders arbitrary: f)
  case Nil
  then show ?case by simp
next
  case (Cons name folders)
  have n: "name \<notin> set (snd (create_folders_traced os target folders g))" for g
    using traced_calls_subset [of os target folders g] Cons.prems by auto
  have d: "distinct (snd (create_folders_traced os target folders g))" for g
    using Cons.IH Cons.prems by simp
  show ?case
    using n d
    by (simp add: Let_def case_prod_beta split: sum.splits)
qed

lemma traced_calls_needed:
  "\<forall>name \<in> set folders. os_path_exists os f (os_path_abspath os (os_path_join os target name)) \<Longrightarrow>
   create_folders_traced os target folders f = ((None, f), [])"
  by (induction folders) (simp_all add: Let_def)

lemma loop_tolerates:
  "\<forall>name \<in> set folders.
      os_path_exists os f (os_path_abspath os (os_path_join os target name)) \<or>
      (\<exists>m. os_mkdir os f (os_path_abspath os (os_path_join os target name)) = Inl (FileExistsError m)) \<Longrightarrow>
   create_folders os target folders f = (None, f)"
  by (induction folders) (auto simp: create_folder_def Let_def)

lemma loop_never_raises_exists:
  "fst (create_folders os target folders f) \<noteq> Some (FileExistsError m)"
proof (induction folders arbitrary: f)
  case Nil
  then show ?case by simp
next
  case (Cons name folders)
  show ?case
    using Cons.IH
    by (auto simp: create_folder_def Let_def split: sum.splits if_splits)
qed

lemma init_tolerates:
  "fst (init os sources target startswith s) \<noteq> Some (FileExistsError m)"
  using loop_never_raises_exists [of os target "collect_folders os (fs s) sources startswith" "fs s" m]
  by (simp add: init_creates_collected)

text \<open>
  C8. The planner takes what \<^verbatim>\<open>get_subdirs\<close> returns for every source and every prefix,
  in that order, and keeps of every name its first occurrence: the folders are the
  names in first-seen order, each once. \<^verbatim>\<open>init\<close> runs the loop that creates the target
  folders over exactly this list; in the whole run of the loop \<^verbatim>\<open>os.mkdir\<close> is called
  for folders of the list only and for none of them twice, so a target folder is created
  at most once. The loop tolerates folders that are there: \<^verbatim>\<open>init\<close> never ends with
  \<^verbatim>\<open>FileExistsError\<close>; when all folders exist there is no call and the file system is
  as before; when every folder exists or \<^verbatim>\<open>os.mkdir\<close> raises \<^verbatim>\<open>FileExistsError\<close> for
  it, the loop and \<^verbatim>\<open>init\<close> go through. The loop is its rounds in the order of the
  list: one round leaves the file system alone when the folder exists and when
  \<^verbatim>\<open>os.mkdir\<close> raises \<^verbatim>\<open>FileExistsError\<close>, and goes on; otherwise the folder is what
  \<^verbatim>\<open>os.mkdir\<close> creates.
\<close>

theorem folders_first_seen:
  "(let names = concat (map (\<lambda>s. concat (map (get_subdirs os (fs s0) s) startswith)) sources);
        folders = collect_folders os (fs s0) sources startswith;
        loop = create_folders_traced os target folders (fs s0)
    in folders = rev (remdups (rev names)) \<and> distinct folders \<and> set folders = set names
       \<and> (\<forall>name. count_list folders name \<le> 1)
       \<and> fst (init os sources target startswith s0) =
           fst (create_folders os target folders (fs s0))
       \<and> create_folders os target folders (fs s0) = fst loop
       \<and> distinct (snd loop) \<and> set (snd loop) \<subseteq> set folders
       \<and> (\<forall>name. count_list (snd loop) name \<le> 1)
       \<and> (\<forall>m. fst (init os sources target startswith s0) \<noteq> Some (FileExistsError m))
       \<and> ((\<forall>name \<in> set folders.
              os_path_exists os (fs s0) (os_path_abspath os (os_path_join os target name))) \<longrightarrow>
            loop = ((None, fs s0), []))
       \<and> ((\<forall>name \<in> set folders.
              os_path_exists os (fs s0) (os_path_abspath os (os_path_join os target name)) \<or>
              (\<exists>m. os_mkdir os (fs s0) (os_path_abspath os (os_path_join os target name)) =
                     Inl (FileExistsError m))) \<longrightarrow>
            create_folders os target folders (fs s0) = (None, fs s0) \<and>
            fst (init os sources target startswith s0) = None))
   \<and> (\<forall>name rest f. create_folders os target (name # rest) f =
          (case create_folder os target name f of
             Inl e \<Rightarrow> (Some e, f)
           | Inr f1 \<Rightarrow> create_folders os target rest f1))
   \<and> (\<forall>name f. os_path_exists os f (os_path_abspath os (os_path_join os target name)) \<longrightarrow>
          create_folder os target name f = Inr f)
   \<and> (\<forall>name f m. \<not> os_path_exists os f (os_path_abspath os (os_path_join os target name)) \<and>
          os_mkdir os f (os_path_abspath os (os_path_join os target name)) = Inl (FileExistsError m) \<longrightarrow>
          create_folder os target name f = Inr f)
   \<and> (\<forall>name f f1. \<not> os_path_exists os f (os_path_abspath os (os_path_join os target name)) \<and>
          os_mkdir os f (os_path_abspath os (os_path_join os target name)) = Inr f1 \<longrightarrow>
          create_folder os target name f = Inr f1)"
proof -
  let ?names = "concat (map (\<lambda>s. concat (map (get_subdirs os (fs s0) s) startswith)) sources)"
  let ?folders = "collect_folders os (fs s0) sources startswith"
  let ?loop = "create_folders_traced os target ?folders (fs s0)"
  let ?P = "\<lambda>name. os_path_abspath os (os_path_join os target name)"
  have a: "?folders = rev (remdups (rev ?names))"
    by (rule collect_folders_first_seen)
  have b: "distinct ?folders" by (simp add: a)
  have c: "set ?folders = set ?names" by (simp add: a)
  have d: "count_list ?folders name \<le> 1" for name
    using b by (rule distinct_count_le_1)
  have e: "fst (init os sources target startswith s0) = fst (create_folders os target ?folders (fs s0))"
    by (rule init_creates_collected)
  have f: "create_folders os target ?folders (fs s0) = fst ?loop"
    by (simp add: traced_loop)
  have g: "distinct (snd ?loop)"
    using b by (rule traced_calls_distinct)
  have h: "set (snd ?loop) \<subseteq> set ?folders"
    by (rule traced_calls_subset)
  have i: "count_list (snd ?loop) name \<le> 1" for name
    using g by (rule distinct_count_le_1)
  have j: "fst (init os sources target startswith s0) \<noteq> Some (FileExistsError m)" for m
    by (rule init_tolerates)
  have k: "(\<forall>name \<in> set ?folders. os_path_exists os (fs s0) (?P name)) \<longrightarrow>
             ?loop = ((None, fs s0), [])"
    using traced_calls_needed [of ?folders os "fs s0" target] by blast
  have l: "(\<forall>name \<in> set ?folders. os_path_exists os (fs s0) (?P name) \<or>
              (\<exists>m. os_mkdir os (fs s0) (?P name) = Inl (FileExistsError m))) \<longrightarrow>
           create_folders os target ?folders (fs s0) = (None, fs s0) \<and>
           fst (init os sources target startswith s0) = None"
    using loop_tolerates [of ?folders os "fs s0" target] e by auto
  have first: "?folders = rev (remdups (rev ?names)) \<and> distinct ?folders \<and> set ?folders = set ?names
       \<and> (\<forall>name. count_list ?folders name \<le> 1)
       \<and> fst (init os sources target startswith s0) =
           fst (create_folders os target ?folders (fs s0))
       \<and> create_folders os target ?folders (fs s0) = fst ?loop
       \<and> distinct (snd ?loop) \<and> set (snd ?loop) \<subseteq> set ?folders
       \<and> (\<forall>name. count_list (snd ?loop) name \<le> 1)
       \<and> (\<forall>m. fst (init os sources target startswith s0) \<noteq> Some (FileExistsError m))
       \<and> ((\<forall>name \<in> set ?folders. os_path_exists os (fs s0) (?P name)) \<longrightarrow>
            ?loop = ((None, fs s0), []))
       \<and> ((\<forall>name \<in> set ?folders. os_path_exists os (fs s0) (?P name) \<or>
              (\<exists>m. os_mkdir os (fs s0) (?P name) = Inl (FileExistsError m))) \<longrightarrow>
            create_folders os target ?folders (fs s0) = (None, fs s0) \<and>
            fst (init os sources target startswith s0) = None)"
    using a b c d e f g h i j k l by (intro conjI allI) blast+
  have rounds: "(\<forall>name rest f. create_folders os target (name # rest) f =
          (case create_folder os target name f of
             Inl e \<Rightarrow> (Some e, f)
           | Inr f1 \<Rightarrow> create_folders os target rest f1))
   \<and> (\<forall>name f. os_path_exists os f (?P name) \<longrightarrow> create_folder os target name f = Inr f)
   \<and> (\<forall>name f m. \<not> os_path_exists os f (?P name) \<and>
          os_mkdir os f (?P name) = Inl (FileExistsError m) \<longrightarrow>
          create_folder os target name f = Inr f)
   \<and> (\<forall>name f f1. \<not> os_path_exists os f (?P name) \<and> os_mkdir os f (?P name) = Inr f1 \<longrightarrow>
          create_folder os target name f = Inr f1)"
    by (simp add: create_folder_def Let_def)
  show ?thesis
    unfolding Let_def using first rounds by (rule conjI)
qed

subsection \<open>The planner on the second example\<close>

lemma two_cards_names:
  "concat (map (\<lambda>s. concat (map (get_subdirs (posix c) two_cards_fs s) [''VID_'', ''PIC_'']))
     [''/A'', ''/B'']) = [''VID_1'', ''VID_1'', ''PIC_7'']"
  by code_simp

lemma two_cards_paths:
  "os_path_abspath (posix c) (os_path_join (posix c) ''/dst'' ''VID_1'') = ''/dst/VID_1''"
  "os_path_abspath (posix c) (os_path_join (posix c) ''/dst'' ''PIC_7'') = ''/dst/PIC_7''"
  "os_path_abspath (posix c) (os_path_join (posix c) ''/A/VID_1'' ''f'') = ''/A/VID_1/f''"
  "os_path_abspath (posix c) (os_path_join (posix c) ''/A/VID_1'' ''h'') = ''/A/VID_1/h''"
  "os_path_abspath (posix c) (os_path_join (posix c) ''/B/VID_1'' ''g'') = ''/B/VID_1/g''"
  "os_path_abspath (posix c) (os_path_join (posix c) ''/dst/VID_1/'' ''f'') = ''/dst/VID_1/f''"
  "os_path_abspath (posix c) (os_path_join (posix c) ''/dst/VID_1/'' ''g'') = ''/dst/VID_1/g''"
  "os_path_abspath (posix c) (os_path_join (posix c) ''/dst/VID_1/'' ''h'') = ''/dst/VID_1/h''"
  by code_simp+

lemma two_cards_stat:
  "os_path_exists (posix c) two_cards_fs ''/dst/VID_1''"
  "\<not> os_path_exists (posix c) two_cards_fs ''/dst/PIC_7''"
  "os_path_exists (posix c) two_cards_fs ''/dst/VID_1/f''"
  "os_path_exists (posix c) two_cards_fs ''/dst/VID_1/g''"
  "\<not> os_path_exists (posix c) two_cards_fs ''/dst/VID_1/h''"
  "os_path_getsize (posix c) two_cards_fs ''/dst/VID_1/f'' = Inr 5"
  "os_path_getsize (posix c) two_cards_fs ''/A/VID_1/f'' = Inr 10"
  "os_path_getsize (posix c) two_cards_fs ''/dst/VID_1/g'' = Inr 20"
  "os_path_getsize (posix c) two_cards_fs ''/B/VID_1/g'' = Inr 20"
  by code_simp+

lemma two_cards_mkdir:
  "os_mkdir (posix c) two_cards_fs ''/dst/PIC_7'' = Inr (two_cards_fs @ [(''/dst/PIC_7'', Dir)])"
  by code_simp

lemma two_cards_remove:
  "os_remove (posix c) two_cards_fs ''/dst/VID_1/f'' =
     Inr (filter (\<lambda>e. fst e \<noteq> ''/dst/VID_1/f'') two_cards_fs)"
  by code_simp

lemma two_cards_collect:
  "collect_folders (posix c) two_cards_fs [''/A'', ''/B''] [''VID_'', ''PIC_''] = [''VID_1'', ''PIC_7'']"
  "collect_folders (posix c) (two_cards_fs @ [(''/dst/PIC_7'', Dir)]) [''/A'', ''/B'']
     [''VID_'', ''PIC_''] = [''VID_1'', ''PIC_7'']"
  by code_simp+

lemma two_cards_loop:
  "create_folders_traced (posix c) ''/dst'' [''VID_1'', ''PIC_7''] two_cards_fs =
     ((None, two_cards_fs @ [(''/dst/PIC_7'', Dir)]), [''PIC_7''])"
  by code_simp

lemma two_cards_again:
  "os_path_exists (posix c) (two_cards_fs @ [(''/dst/PIC_7'', Dir)]) ''/dst/VID_1''"
  "os_path_exists (posix c) (two_cards_fs @ [(''/dst/PIC_7'', Dir)]) ''/dst/PIC_7''"
  by code_simp+

text \<open>
  Two cards with \<^verbatim>\<open>VID_1\<close> on both: one folder \<^verbatim>\<open>VID_1\<close>, then \<^verbatim>\<open>PIC_7\<close>. The first is at
  the destination already and is left alone, the second is created: the loop calls
  \<^verbatim>\<open>os.mkdir\<close> once, for \<^verbatim>\<open>PIC_7\<close>, and \<^verbatim>\<open>init\<close> goes through. Run again on the result,
  the loop calls \<^verbatim>\<open>os.mkdir\<close> for no folder and \<^verbatim>\<open>init\<close> goes through again.
\<close>

theorem folders_first_seen_witness:
  "collect_folders (posix 0) two_cards_fs [''/A'', ''/B''] [''VID_'', ''PIC_''] = [''VID_1'', ''PIC_7'']
   \<and> create_folders (posix 0) ''/dst'' [''VID_1'', ''PIC_7''] two_cards_fs =
       (None, two_cards_fs @ [(''/dst/PIC_7'', Dir)])
   \<and> snd (create_folders_traced (posix 0) ''/dst'' [''VID_1'', ''PIC_7''] two_cards_fs) = [''PIC_7'']
   \<and> fst (init (posix 0) [''/A'', ''/B''] ''/dst'' [''VID_'', ''PIC_''] (new_session two_cards_fs [] [])) = None
   \<and> create_folders_traced (posix 0) ''/dst'' [''VID_1'', ''PIC_7'']
         (two_cards_fs @ [(''/dst/PIC_7'', Dir)]) =
       ((None, two_cards_fs @ [(''/dst/PIC_7'', Dir)]), [])
   \<and> fst (init (posix 0) [''/A'', ''/B''] ''/dst'' [''VID_'', ''PIC_'']
         (new_session (two_cards_fs @ [(''/dst/PIC_7'', Dir)]) [] [])) = None
   \<and> create_folder (posix 0) ''/dst'' ''VID_1'' two_cards_fs = Inr two_cards_fs
   \<and> create_folder (posix 0) ''/dst'' ''PIC_7'' two_cards_fs =
       Inr (two_cards_fs @ [(''/dst/PIC_7'', Dir)])"
proof -
  let ?made = "two_cards_fs @ [(''/dst/PIC_7'', Dir)]"
  note th = folders_first_seen [where os = "posix 0" and ?s0.0 = "new_session two_cards_fs [] []"
      and sources = "[''/A'', ''/B'']" and startswith = "[''VID_'', ''PIC_'']" and target = "''/dst''"]
  note th2 = folders_first_seen [where os = "posix 0" and ?s0.0 = "new_session ?made [] []"
      and sources = "[''/A'', ''/B'']" and startswith = "[''VID_'', ''PIC_'']" and target = "''/dst''"]
  have f: "fs (new_session two_cards_fs [] []) = two_cards_fs"
    "fs (new_session ?made [] []) = ?made"
    by (simp_all add: new_session_def)
  note first = th [THEN conjunct1, unfolded Let_def f two_cards_names two_cards_collect two_cards_loop]
  note again = th2 [THEN conjunct1, unfolded Let_def f two_cards_collect]
  have a: "collect_folders (posix 0) two_cards_fs [''/A'', ''/B''] [''VID_'', ''PIC_''] = [''VID_1'', ''PIC_7'']"
    by (rule two_cards_collect)
  have b: "create_folders (posix 0) ''/dst'' [''VID_1'', ''PIC_7''] two_cards_fs = (None, ?made)"
    using first by simp
  have c: "snd (create_folders_traced (posix 0) ''/dst'' [''VID_1'', ''PIC_7''] two_cards_fs) = [''PIC_7'']"
    by (simp only: two_cards_loop snd_conv)
  have d: "fst (init (posix 0) [''/A'', ''/B''] ''/dst'' [''VID_'', ''PIC_''] (new_session two_cards_fs [] [])) = None"
    using first by simp
  have ex: "\<forall>name \<in> set [''VID_1'', ''PIC_7''].
              os_path_exists (posix 0) ?made (os_path_abspath (posix 0) (os_path_join (posix 0) ''/dst'' name))"
    using two_cards_again [of 0] by (simp add: two_cards_paths)
  have e: "create_folders_traced (posix 0) ''/dst'' [''VID_1'', ''PIC_7''] ?made = ((None, ?made), [])"
    using again ex by blast
  have g: "fst (init (posix 0) [''/A'', ''/B''] ''/dst'' [''VID_'', ''PIC_''] (new_session ?made [] [])) = None"
    using again ex by blast
  have h: "create_folder (posix 0) ''/dst'' ''VID_1'' two_cards_fs = Inr two_cards_fs"
    using th [THEN conjunct2, THEN conjunct2, THEN conjunct1, rule_format,
        where name = "''VID_1''" and f = two_cards_fs]
      two_cards_stat(1) [of 0]
    by (simp add: two_cards_paths)
  have i: "create_folder (posix 0) ''/dst'' ''PIC_7'' two_cards_fs = Inr ?made"
    using th [THEN conjunct2, THEN conjunct2, THEN conjunct2, THEN conjunct2, rule_format,
        where name = "''PIC_7''" and f = two_cards_fs and ?f1.0 = "?made"]
      two_cards_stat(2) [of 0] two_cards_mkdir [of 0]
    by (simp add: two_cards_paths)
  show ?thesis using a b c d e g h i by blast
qed

subsection \<open>The planner: files\<close>

text \<open>
  C2. For a file name that the planner considers in the folder \<open>f\<close> of the source \<open>src\<close>
  (the regular files that \<^verbatim>\<open>os.listdir\<close> lists there), with source file
  \<^verbatim>\<open>source/<name>/<filename>\<close> and destination file \<^verbatim>\<open>destination/<name>/<filename>\<close>:
  if the destination file exists and \<^verbatim>\<open>os.path.getsize\<close> gives the same size for both,
  the only change is the log line \<^verbatim>\<open>Skipping\<close>: no task; if it exists with another size
  and \<^verbatim>\<open>os.remove\<close> succeeds, the deletion is logged, the file system is what
  \<^verbatim>\<open>os.remove\<close> returns, and the task is queued and counted; if it does not exist, the
  task is queued and counted. The task is the source file with the folder
  \<^verbatim>\<open>destination/<name>/\<close>.
\<close>

theorem plan_file_policy:
  "(let source_file = os_path_abspath os (os_path_join os source filename);
        destination_file = os_path_abspath os (os_path_join os destination filename)
    in (\<forall>n. os_path_exists os (fs s) destination_file \<and>
             os_path_getsize os (fs s) destination_file = Inr n \<and>
             os_path_getsize os (fs s) source_file = Inr n \<longrightarrow>
             plan_file os source destination filename s =
               s\<lparr>logs := logs s @ [Skipping source_file destination_file]\<rparr>)
       \<and> (\<forall>m n fs1. os_path_exists os (fs s) destination_file \<and>
             os_path_getsize os (fs s) destination_file = Inr m \<and>
             os_path_getsize os (fs s) source_file = Inr n \<and> m \<noteq> n \<and>
             os_remove os (fs s) destination_file = Inr fs1 \<longrightarrow>
             plan_file os source destination filename s =
               s\<lparr>fs := fs1, logs := logs s @ [Deleting destination_file],
                 file_queue := file_queue s @ [(Some source_file, Some destination)],
                 unfinished_tasks := unfinished_tasks s + 1,
                 total_file_count := total_file_count s + 1\<rparr>)
       \<and> (\<not> os_path_exists os (fs s) destination_file \<longrightarrow>
             plan_file os source destination filename s =
               s\<lparr>file_queue := file_queue s @ [(Some source_file, Some destination)],
                 unfinished_tasks := unfinished_tasks s + 1,
                 total_file_count := total_file_count s + 1\<rparr>))
   \<and> (\<forall>names. os_listdir os (fs s) (os_path_abspath os (os_path_join os src f)) = Inr names \<longrightarrow>
          plan_source os target f src s =
            fold (plan_file os (os_path_abspath os (os_path_join os src f))
                    (os_path_abspath os (os_path_join os target f) @ os_sep os))
              (filter (\<lambda>sf. os_path_isfile os (fs s)
                         (os_path_join os (os_path_abspath os (os_path_join os src f)) sf)) names) s)"
  by (auto simp add: plan_file_def plan_source_def plan_task_def put_def log_line_def Let_def)

text \<open>
  The three cases on the second example: \<^verbatim>\<open>g\<close> is there complete, \<^verbatim>\<open>f\<close> is there with 5
  bytes for 10, \<^verbatim>\<open>h\<close> is not there.
\<close>

theorem plan_file_policy_witness:
  "plan_file (posix 0) ''/B/VID_1'' ''/dst/VID_1/'' ''g'' (new_session two_cards_fs [] []) =
     new_session two_cards_fs [Skipping ''/B/VID_1/g'' ''/dst/VID_1/g''] []
   \<and> plan_file (posix 0) ''/A/VID_1'' ''/dst/VID_1/'' ''f'' (new_session two_cards_fs [] []) =
     new_session (filter (\<lambda>e. fst e \<noteq> ''/dst/VID_1/f'') two_cards_fs) [Deleting ''/dst/VID_1/f''] []
       \<lparr>file_queue := [(Some ''/A/VID_1/f'', Some ''/dst/VID_1/'')],
         unfinished_tasks := 1, total_file_count := 1\<rparr>
   \<and> plan_file (posix 0) ''/A/VID_1'' ''/dst/VID_1/'' ''h'' (new_session two_cards_fs [] []) =
     new_session two_cards_fs [] []
       \<lparr>file_queue := [(Some ''/A/VID_1/h'', Some ''/dst/VID_1/'')],
         unfinished_tasks := 1, total_file_count := 1\<rparr>"
proof -
  let ?s = "new_session two_cards_fs [] []"
  have f: "fs ?s = two_cards_fs" by (simp add: new_session_def)
  note g = plan_file_policy [where os = "posix 0" and s = ?s and source = "''/B/VID_1''"
      and destination = "''/dst/VID_1/''" and filename = "''g''", THEN conjunct1,
      unfolded Let_def two_cards_paths f, THEN conjunct1, rule_format, where n = 20]
  have a: "plan_file (posix 0) ''/B/VID_1'' ''/dst/VID_1/'' ''g'' ?s =
             ?s\<lparr>logs := logs ?s @ [Skipping ''/B/VID_1/g'' ''/dst/VID_1/g'']\<rparr>"
    by (rule g) (simp add: two_cards_stat)
  note d = plan_file_policy [where os = "posix 0" and s = ?s and source = "''/A/VID_1''"
      and destination = "''/dst/VID_1/''" and filename = "''f''", THEN conjunct1,
      unfolded Let_def two_cards_paths f, THEN conjunct2, THEN conjunct1, rule_format,
      where m = 5 and n = 10 and ?fs1.0 = "filter (\<lambda>e. fst e \<noteq> ''/dst/VID_1/f'') two_cards_fs"]
  have b: "plan_file (posix 0) ''/A/VID_1'' ''/dst/VID_1/'' ''f'' ?s =
             ?s\<lparr>fs := filter (\<lambda>e. fst e \<noteq> ''/dst/VID_1/f'') two_cards_fs,
                 logs := logs ?s @ [Deleting ''/dst/VID_1/f''],
                 file_queue := file_queue ?s @ [(Some ''/A/VID_1/f'', Some ''/dst/VID_1/'')],
                 unfinished_tasks := unfinished_tasks ?s + 1,
                 total_file_count := total_file_count ?s + 1\<rparr>"
    by (rule d) (simp add: two_cards_stat two_cards_remove)
  note h = plan_file_policy [where os = "posix 0" and s = ?s and source = "''/A/VID_1''"
      and destination = "''/dst/VID_1/''" and filename = "''h''", THEN conjunct1,
      unfolded Let_def two_cards_paths f, THEN conjunct2, THEN conjunct2, rule_format]
  have c: "plan_file (posix 0) ''/A/VID_1'' ''/dst/VID_1/'' ''h'' ?s =
             ?s\<lparr>file_queue := file_queue ?s @ [(Some ''/A/VID_1/h'', Some ''/dst/VID_1/'')],
                 unfinished_tasks := unfinished_tasks ?s + 1,
                 total_file_count := total_file_count ?s + 1\<rparr>"
    by (rule h) (simp add: two_cards_stat)
  show ?thesis
    unfolding a b c by (simp add: new_session_def)
qed

subsection \<open>What the planner changes in a session\<close>

lemma grows_refl: "grows s s"
  by (simp add: grows_def)

lemma grows_trans:
  assumes "grows s s1" and "grows s1 s2"
  shows "grows s s2"
proof -
  obtain n1 where n1: "file_queue s1 = file_queue s @ n1"
      "total_file_count s1 = total_file_count s + length n1"
      "unfinished_tasks s1 = unfinished_tasks s + length n1"
    using assms(1) by (auto simp: grows_def)
  obtain n2 where n2: "file_queue s2 = file_queue s1 @ n2"
      "total_file_count s2 = total_file_count s1 + length n2"
      "unfinished_tasks s2 = unfinished_tasks s1 + length n2"
    using assms(2) by (auto simp: grows_def)
  have "file_queue s2 = file_queue s @ (n1 @ n2) \<and>
        total_file_count s2 = total_file_count s + length (n1 @ n2) \<and>
        unfinished_tasks s2 = unfinished_tasks s + length (n1 @ n2)"
    using n1 n2 by simp
  then have "\<exists>new. file_queue s2 = file_queue s @ new \<and>
        total_file_count s2 = total_file_count s + length new \<and>
        unfinished_tasks s2 = unfinished_tasks s + length new"
    by blast
  then show ?thesis using assms by (simp add: grows_def)
qed

lemma grows_log_line: "grows s s1 \<Longrightarrow> grows s (log_line m s1)"
  by (simp add: grows_def log_line_def)

lemma grows_fs: "grows s s1 \<Longrightarrow> grows s (s1\<lparr>fs := f\<rparr>)"
  by (simp add: grows_def)

lemma grows_plan_task:
  assumes "grows s s1"
  shows "grows s (plan_task a b s1)"
proof -
  have "file_queue (plan_task a b s1) = file_queue s1 @ [(Some a, Some b)] \<and>
        total_file_count (plan_task a b s1) = total_file_count s1 + length [(Some a, Some b)] \<and>
        unfinished_tasks (plan_task a b s1) = unfinished_tasks s1 + length [(Some a, Some b)]"
    by (simp add: plan_task_def put_def Let_def)
  then have "\<exists>new. file_queue (plan_task a b s1) = file_queue s1 @ new \<and>
        total_file_count (plan_task a b s1) = total_file_count s1 + length new \<and>
        unfinished_tasks (plan_task a b s1) = unfinished_tasks s1 + length new"
    by blast
  then have "grows s1 (plan_task a b s1)"
    by (simp add: grows_def plan_task_def put_def Let_def)
  with assms show ?thesis by (rule grows_trans)
qed

lemma grows_if: "grows s a \<Longrightarrow> grows s b \<Longrightarrow> grows s (if c then a else b)"
  by simp

lemma grows_case_sum:
  "(\<And>e. grows s (f e)) \<Longrightarrow> (\<And>v. grows s (g v)) \<Longrightarrow> grows s (case x of Inl e \<Rightarrow> f e | Inr v \<Rightarrow> g v)"
  by (cases x) auto

lemma grows_fold:
  assumes "\<And>x s1. grows s1 (f x s1)" and "grows s s0"
  shows "grows s (fold f xs s0)"
  using assms(2)
proof (induction xs arbitrary: s0)
  case Nil
  then show ?case by simp
next
  case (Cons x xs)
  have "grows s (f x s0)" using Cons.prems assms(1) by (rule grows_trans)
  then show ?case using Cons.IH by simp
qed

lemma grows_plan_file: "grows s (plan_file os source destination filename s)"
  unfolding plan_file_def Let_def
  by (intro grows_if grows_case_sum grows_log_line grows_plan_task grows_fs grows_refl)

lemma grows_plan_source: "grows s (plan_source os target f src s)"
  unfolding plan_source_def Let_def
  by (intro grows_if grows_case_sum grows_log_line grows_fold grows_plan_file grows_refl)

lemma grows_plan_folders: "grows s (plan_folders os sources target folders s)"
  unfolding plan_folders_def
  by (intro grows_fold grows_plan_source grows_refl)

lemma grows_init: "grows s (snd (init os sources target startswith s))"
proof -
  let ?s2 = "log_line CreatingTargetFolders (log_line CollectingSourceSubfolders s)"
  obtain e f where c: "create_folders os target
      (collect_folders os (fs (log_line CollectingSourceSubfolders s)) sources startswith) (fs ?s2) = (e, f)"
    by (cases rule: prod.exhaust)
  have g2: "grows s (?s2\<lparr>fs := f\<rparr>)"
    by (intro grows_log_line grows_fs grows_refl)
  show ?thesis
  proof (cases e)
    case None
    have "grows s (log_line PreparingFiles (?s2\<lparr>fs := f\<rparr>))"
      using g2 by (rule grows_log_line)
    then have "grows s (plan_folders os sources target
        (collect_folders os (fs (log_line CollectingSourceSubfolders s)) sources startswith)
        (log_line PreparingFiles (?s2\<lparr>fs := f\<rparr>)))"
      using grows_plan_folders by (rule grows_trans)
    then show ?thesis using c None
      by (simp add: init_def Let_def grows_log_line)
  next
    case (Some a)
    then show ?thesis using c g2 by (simp add: init_def Let_def)
  qed
qed

subsection \<open>Counting\<close>

lemma how_many_simps [simp]:
  "how_many P [] = 0"
  "how_many P (x # xs) = (if P x then 1 else 0) + how_many P xs"
  "how_many P (xs @ ys) = how_many P xs + how_many P ys"
  by (simp_all add: how_many_def)

lemma how_many_le_length: "how_many P xs \<le> length xs"
  by (simp add: how_many_def)

lemma how_many_replicate: "how_many P (replicate n x) = (if P x then n else 0)"
  by (induction n) simp_all

lemma how_many_zero: "how_many P xs = 0 \<longleftrightarrow> (\<forall>x \<in> set xs. \<not> P x)"
  by (induction xs) auto

lemma how_many_all: "list_all P xs \<Longrightarrow> how_many P xs = length xs"
  by (induction xs) auto

lemma how_many_update:
  "t < length ws \<Longrightarrow>
   how_many P (ws[t := c]) + (if P (ws ! t) then 1 else 0) = how_many P ws + (if P c then 1 else 0)"
proof (induction ws arbitrary: t)
  case Nil
  then show ?case by simp
next
  case (Cons w ws)
  show ?case
  proof (cases t)
    case 0
    then show ?thesis by simp
  next
    case (Suc u)
    then show ?thesis using Cons.IH [of u] Cons.prems by simp
  qed
qed

lemma check_entry_eq:
  "check_entry t x s =
     (if valid x \<and> \<not> stopping s
      then set_worker t (InCopy (the (fst x)) (the (snd x))) (log_line (Copying (the (fst x))) s)
      else set_worker t (Finally True) s)"
proof (cases x)
  case (Pair a b)
  then show ?thesis by (cases a; cases b) (auto simp: valid_def)
qed

subsection \<open>The lock\<close>

lemma lock_ok_set_worker:
  assumes "lock_ok s" and "\<not> holds_lock c"
  shows "lock_ok (set_worker t c s)"
  unfolding lock_ok_def set_worker_def
proof (intro allI impI)
  fix u
  assume u: "u < length (workers (s\<lparr>workers := (workers s)[t := c]\<rparr>))"
  show "(holds_lock (workers (s\<lparr>workers := (workers s)[t := c]\<rparr>) ! u) \<longrightarrow>
          lock (s\<lparr>workers := (workers s)[t := c]\<rparr>) = Some u) \<and>
        (\<forall>n. workers (s\<lparr>workers := (workers s)[t := c]\<rparr>) ! u = Loaded n \<longrightarrow>
          n = copied_file_count (s\<lparr>workers := (workers s)[t := c]\<rparr>))"
  proof (cases "u = t")
    case True
    then show ?thesis using assms(2) u by auto
  next
    case False
    then show ?thesis using assms(1) u by (simp add: lock_ok_def)
  qed
qed

lemma lock_ok_cong:
  assumes "lock_ok s" and "workers s1 = workers s" and "lock s1 = lock s"
    and "copied_file_count s1 = copied_file_count s"
  shows "lock_ok s1"
  using assms by (simp add: lock_ok_def)

lemma lock_ok_acquire:
  assumes "lock_ok s" and "lock s = None" and "t < length (workers s)"
  shows "lock_ok (set_worker t Locked (s\<lparr>lock := Some t\<rparr>))"
  using assms by (auto simp: lock_ok_def set_worker_def nth_list_update)

lemma holder_unique:
  assumes "lock_ok s" and "t < length (workers s)" and "holds_lock (workers s ! t)"
    and "u < length (workers s)" and "u \<noteq> t"
  shows "\<not> holds_lock (workers s ! u)"
proof
  assume "holds_lock (workers s ! u)"
  then have "lock s = Some u" using assms(1,4) by (simp add: lock_ok_def)
  moreover have "lock s = Some t" using assms(1,2,3) by (simp add: lock_ok_def)
  ultimately show False using assms(5) by simp
qed

lemma lock_ok_load:
  assumes "lock_ok s" and "workers s ! t = Locked" and "t < length (workers s)"
  shows "lock_ok (set_worker t (Loaded (copied_file_count s)) s)"
  unfolding lock_ok_def set_worker_def
proof (intro allI impI)
  fix u
  let ?s1 = "s\<lparr>workers := (workers s)[t := Loaded (copied_file_count s)]\<rparr>"
  assume u: "u < length (workers ?s1)"
  have lt: "lock s = Some t" using assms by (auto simp: lock_ok_def)
  show "(holds_lock (workers ?s1 ! u) \<longrightarrow> lock ?s1 = Some u) \<and>
        (\<forall>m. workers ?s1 ! u = Loaded m \<longrightarrow> m = copied_file_count ?s1)"
  proof (cases "u = t")
    case True
    then show ?thesis using u lt by simp
  next
    case False
    have "\<not> holds_lock (workers s ! u)"
      using holder_unique [OF assms(1) assms(3) _ _ False] assms(2) u by simp
    then show ?thesis using False u by auto
  qed
qed

lemma lock_ok_store:
  assumes "lock_ok s" and "workers s ! t = Loaded n" and "t < length (workers s)"
  shows "lock_ok (set_worker t Stored (s\<lparr>copied_file_count := n + 1\<rparr>))"
  unfolding lock_ok_def set_worker_def
proof (intro allI impI)
  fix u
  let ?s1 = "s\<lparr>copied_file_count := n + 1, workers := (workers (s\<lparr>copied_file_count := n + 1\<rparr>))[t := Stored]\<rparr>"
  assume u: "u < length (workers ?s1)"
  have lt: "lock s = Some t" using assms by (auto simp: lock_ok_def)
  show "(holds_lock (workers ?s1 ! u) \<longrightarrow> lock ?s1 = Some u) \<and>
        (\<forall>m. workers ?s1 ! u = Loaded m \<longrightarrow> m = copied_file_count ?s1)"
  proof (cases "u = t")
    case True
    then show ?thesis using u lt by simp
  next
    case False
    have "\<not> holds_lock (workers s ! u)"
      using holder_unique [OF assms(1) assms(3) _ _ False] assms(2) u by simp
    then show ?thesis using False u by auto
  qed
qed

lemma lock_ok_release:
  assumes "lock_ok s" and "workers s ! t = Stored" and "t < length (workers s)"
  shows "lock_ok (set_worker t (Finally False) (s\<lparr>lock := None\<rparr>))"
  unfolding lock_ok_def set_worker_def
proof (intro allI impI)
  fix u
  let ?s1 = "s\<lparr>lock := None, workers := (workers (s\<lparr>lock := None\<rparr>))[t := Finally False]\<rparr>"
  assume u: "u < length (workers ?s1)"
  have lt: "lock s = Some t" using assms by (auto simp: lock_ok_def)
  show "(holds_lock (workers ?s1 ! u) \<longrightarrow> lock ?s1 = Some u) \<and>
        (\<forall>m. workers ?s1 ! u = Loaded m \<longrightarrow> m = copied_file_count ?s1)"
  proof (cases "u = t")
    case True
    then show ?thesis using u by simp
  next
    case False
    have "\<not> holds_lock (workers s ! u)"
      using holder_unique [OF assms(1) assms(3) _ _ False] assms(2) u by simp
    then show ?thesis using False u by auto
  qed
qed

lemma lock_ok_spawn:
  assumes "lock_ok s"
  shows "lock_ok (s\<lparr>workers := workers s @ [Idle], threads := ths, pending := k\<rparr>)"
  using assms by (auto simp: lock_ok_def nth_append less_Suc_eq)

subsection \<open>The session invariant\<close>

lemma accounted_set_worker:
  "t < length (workers s) \<Longrightarrow>
   accounted (set_worker t c s) + (if inflight (workers s ! t) then 1 else 0) =
     accounted s + (if inflight c then 1 else 0)"
  using how_many_update [of t "workers s" inflight c]
  by (simp add: accounted_def set_worker_def)

lemma worker_step_index: "worker_step os t s = Some s1 \<Longrightarrow> t < length (workers s)"
  by (auto simp: worker_step_def split: if_splits)

lemma lock_ok_set_worker_on:
  assumes "lock_ok s" and "\<not> holds_lock c" and "workers s0 = workers s" and "lock s0 = lock s"
    and "copied_file_count s0 = copied_file_count s"
  shows "lock_ok (set_worker t c s0)"
  by (rule lock_ok_set_worker [OF lock_ok_cong [OF assms(1,3,4,5)] assms(2)])

lemma session_inv_worker:
  assumes "session_inv s" and "worker_step os t s = Some s1"
  shows "session_inv s1"
proof -
  have t: "t < length (workers s)" using assms(2) by (rule worker_step_index)
  have L: "lock_ok s" and A: "accounted s \<le> total_file_count s"
    using assms(1) by (simp_all add: session_inv_def)
  show ?thesis
  proof (cases "workers s ! t")
    case Idle
    then obtain x q where q: "file_queue s = x # q"
      and s1: "s1 = set_worker t (Got x) (s\<lparr>file_queue := q\<rparr>)"
      using assms(2) t by (auto simp: worker_step_def split: list.splits)
    have "lock_ok s1" unfolding s1 using L by (rule lock_ok_set_worker_on) simp_all
    moreover have "accounted s1 = accounted s"
      using accounted_set_worker [of t "s\<lparr>file_queue := q\<rparr>" "Got x"] t Idle q
      by (simp add: s1 accounted_def)
    moreover have "total_file_count s1 = total_file_count s" by (simp add: s1 set_worker_def)
    ultimately show ?thesis using A by (simp add: session_inv_def)
  next
    case (Got x)
    have s1: "s1 = check_entry t x s" using assms(2) t Got by (simp add: worker_step_def)
    show ?thesis
    proof (cases "valid x \<and> \<not> stopping s")
      case True
      let ?s0 = "log_line (Copying (the (fst x))) s"
      have e: "s1 = set_worker t (InCopy (the (fst x)) (the (snd x))) ?s0"
        using True by (simp add: s1 check_entry_eq)
      have "lock_ok s1" unfolding e using L by (rule lock_ok_set_worker_on) (simp_all add: log_line_def)
      moreover have "accounted s1 = accounted s"
        using accounted_set_worker [of t ?s0 "InCopy (the (fst x)) (the (snd x))"] t Got True
        by (simp add: e accounted_def log_line_def)
      moreover have "total_file_count s1 = total_file_count s"
        by (simp add: e set_worker_def log_line_def)
      ultimately show ?thesis using A by (simp add: session_inv_def)
    next
      case False
      have e: "s1 = set_worker t (Finally True) s"
        using False by (auto simp: s1 check_entry_eq)
      have "lock_ok s1" unfolding e using L by (rule lock_ok_set_worker) simp
      moreover have "accounted s1 \<le> accounted s"
        using accounted_set_worker [of t s "Finally True"] t by (simp add: e)
      moreover have "total_file_count s1 = total_file_count s" by (simp add: e set_worker_def)
      ultimately show ?thesis using A by (simp add: session_inv_def)
    qed
  next
    case (InCopy source dest)
    show ?thesis
    proof (cases "shutil_copy os (fs s) source dest False")
      case (Inr f)
      have e: "s1 = set_worker t WantLock (s\<lparr>fs := f\<rparr>)"
        using assms(2) t InCopy Inr by (simp add: worker_step_def)
      have "lock_ok s1" unfolding e using L by (rule lock_ok_set_worker_on) simp_all
      moreover have "accounted s1 = accounted s"
        using accounted_set_worker [of t "s\<lparr>fs := f\<rparr>" WantLock] t InCopy
        by (simp add: e accounted_def)
      moreover have "total_file_count s1 = total_file_count s" by (simp add: e set_worker_def)
      ultimately show ?thesis using A by (simp add: session_inv_def)
    next
      case (Inl x)
      have e: "s1 = set_worker t (Caught x) s"
        using assms(2) t InCopy Inl by (simp add: worker_step_def)
      have "lock_ok s1" unfolding e using L by (rule lock_ok_set_worker) simp
      moreover have "accounted s1 \<le> accounted s"
        using accounted_set_worker [of t s "Caught x"] t by (simp add: e)
      moreover have "total_file_count s1 = total_file_count s" by (simp add: e set_worker_def)
      ultimately show ?thesis using A by (simp add: session_inv_def)
    qed
  next
    case WantLock
    have n: "lock s = None" and e: "s1 = set_worker t Locked (s\<lparr>lock := Some t\<rparr>)"
      using assms(2) t WantLock by (auto simp: worker_step_def split: if_splits)
    have "lock_ok s1" unfolding e using L n t by (rule lock_ok_acquire)
    moreover have "accounted s1 = accounted s"
      using accounted_set_worker [of t "s\<lparr>lock := Some t\<rparr>" Locked] t WantLock
      by (simp add: e accounted_def)
    moreover have "total_file_count s1 = total_file_count s" by (simp add: e set_worker_def)
    ultimately show ?thesis using A by (simp add: session_inv_def)
  next
    case Locked
    have e: "s1 = set_worker t (Loaded (copied_file_count s)) s"
      using assms(2) t Locked by (simp add: worker_step_def)
    have "lock_ok s1" unfolding e using L Locked t by (rule lock_ok_load)
    moreover have "accounted s1 = accounted s"
      using accounted_set_worker [of t s "Loaded (copied_file_count s)"] t Locked
      by (simp add: e)
    moreover have "total_file_count s1 = total_file_count s" by (simp add: e set_worker_def)
    ultimately show ?thesis using A by (simp add: session_inv_def)
  next
    case (Loaded n)
    have e: "s1 = set_worker t Stored (s\<lparr>copied_file_count := n + 1\<rparr>)"
      using assms(2) t Loaded by (simp add: worker_step_def)
    have n: "n = copied_file_count s" using L t Loaded by (simp add: lock_ok_def)
    have "lock_ok s1" unfolding e using L Loaded t by (rule lock_ok_store)
    moreover have "accounted s1 = accounted s"
      using accounted_set_worker [of t "s\<lparr>copied_file_count := n + 1\<rparr>" Stored] t Loaded n
      by (simp add: e accounted_def)
    moreover have "total_file_count s1 = total_file_count s" by (simp add: e set_worker_def)
    ultimately show ?thesis using A by (simp add: session_inv_def)
  next
    case Stored
    have e: "s1 = set_worker t (Finally False) (s\<lparr>lock := None\<rparr>)"
      using assms(2) t Stored by (simp add: worker_step_def)
    have "lock_ok s1" unfolding e using L Stored t by (rule lock_ok_release)
    moreover have "accounted s1 = accounted s"
      using accounted_set_worker [of t "s\<lparr>lock := None\<rparr>" "Finally False"] t Stored
      by (simp add: e accounted_def)
    moreover have "total_file_count s1 = total_file_count s" by (simp add: e set_worker_def)
    ultimately show ?thesis using A by (simp add: session_inv_def)
  next
    case (Caught x)
    let ?s0 = "log_line (ErrorCopying x) s"
    have e: "s1 = set_worker t (Finally False) ?s0"
      using assms(2) t Caught by (simp add: worker_step_def)
    have "lock_ok s1" unfolding e using L by (rule lock_ok_set_worker_on) (simp_all add: log_line_def)
    moreover have "accounted s1 = accounted s"
      using accounted_set_worker [of t ?s0 "Finally False"] t Caught
      by (simp add: e accounted_def log_line_def)
    moreover have "total_file_count s1 = total_file_count s"
      by (simp add: e set_worker_def log_line_def)
    ultimately show ?thesis using A by (simp add: session_inv_def)
  next
    case (Finally b)
    obtain c s0 where e: "s1 = set_worker t c s0" and c: "\<not> holds_lock c" "\<not> inflight c"
      and s0: "workers s0 = workers s" "lock s0 = lock s"
        "copied_file_count s0 = copied_file_count s" "file_queue s0 = file_queue s"
        "pending s0 = pending s" "total_file_count s0 = total_file_count s"
      using assms(2) t Finally by (auto simp: worker_step_def split: if_splits)
    have "lock_ok s1" unfolding e using L c(1) s0(1,2,3) by (rule lock_ok_set_worker_on)
    moreover have "accounted s1 = accounted s"
      using accounted_set_worker [of t s0 c] t Finally c s0
      by (simp add: e accounted_def)
    moreover have "total_file_count s1 = total_file_count s" using s0 by (simp add: e set_worker_def)
    ultimately show ?thesis using A by (simp add: session_inv_def)
  next
    case Exited
    then show ?thesis using assms(2) t by (simp add: worker_step_def)
  next
    case Died
    then show ?thesis using assms(2) t by (simp add: worker_step_def)
  qed
qed

lemma how_many_valid_put_stop: "how_many valid_put (stop_actions ths) = 0"
  by (auto simp: stop_actions_def how_many_zero valid_def)

lemma how_many_valid_put_after_init: "how_many valid_put (after_init sources s) = 0"
  by (simp add: after_init_def)

lemma session_inv_init:
  assumes "session_inv s" and "pending s = Init # k" and "grows s s0"
    and "how_many valid_put p = 0"
  shows "session_inv (s0\<lparr>pending := p @ k\<rparr>)"
proof -
  obtain new where new: "file_queue s0 = file_queue s @ new"
      "total_file_count s0 = total_file_count s + length new"
    using assms(3) by (auto simp: grows_def)
  have same: "copied_file_count s0 = copied_file_count s" "workers s0 = workers s" "lock s0 = lock s"
    using assms(3) by (simp_all add: grows_def)
  have "lock_ok (s0\<lparr>pending := p @ k\<rparr>)"
    using assms(1) same by (simp add: session_inv_def lock_ok_def)
  moreover have "accounted (s0\<lparr>pending := p @ k\<rparr>) \<le> accounted s + length new"
    using new same assms(2,4) how_many_le_length [of valid new]
    by (simp add: accounted_def)
  ultimately show ?thesis using assms(1) new by (simp add: session_inv_def)
qed

lemma session_inv_client:
  assumes "session_inv s" and "client_step os sources target elapsed s = Some s1"
  shows "session_inv s1"
proof -
  obtain a k where p: "pending s = a # k" and r: "run_action os sources target elapsed a k s = Some s1"
    using assms(2) by (auto simp: client_step_def split: list.splits)
  have L: "lock_ok s" and A: "accounted s \<le> total_file_count s"
    using assms(1) by (simp_all add: session_inv_def)
  show ?thesis
  proof (cases a)
    case Init
    obtain e s0 where i: "init os sources target [''VID_'', ''PIC_''] s = (e, s0)"
      by (cases rule: prod.exhaust)
    have pi: "pending s = Init # k" using p Init by simp
    have g: "grows s s0" using grows_init [of s os sources target "[''VID_'', ''PIC_'']"] i by simp
    show ?thesis
    proof (cases e)
      case None
      have "s1 = s0\<lparr>pending := after_init sources s0 @ k\<rparr>"
        using r Init i None by simp
      then show ?thesis
        using session_inv_init [OF assms(1) pi g how_many_valid_put_after_init] by simp
    next
      case (Some x)
      have "s1 = s0\<lparr>pending := [] @ []\<rparr>"
        using r Init i Some by simp
      moreover have "session_inv (s0\<lparr>pending := [] @ k\<rparr>)"
        by (rule session_inv_init [OF assms(1) pi g]) simp
      ultimately show ?thesis by (simp add: session_inv_def lock_ok_def accounted_def)
    qed
  next
    case (Start n)
    then have "s1 = s\<lparr>threads := [], pending := replicate n Spawn @ k\<rparr>" using r by simp
    then show ?thesis using L A p Start
      by (simp add: session_inv_def lock_ok_def accounted_def how_many_replicate)
  next
    case Spawn
    show ?thesis
    proof (cases "stopping s")
      case True
      then have "s1 = s\<lparr>pending := k\<rparr>" using r Spawn by simp
      then show ?thesis using L A p Spawn by (simp add: session_inv_def lock_ok_def accounted_def)
    next
      case False
      then have e: "s1 = s\<lparr>workers := workers s @ [Idle],
                   threads := threads s @ [length (workers s)], pending := k\<rparr>"
        using r Spawn by simp
      have "lock_ok s1" unfolding e using L by (rule lock_ok_spawn)
      then show ?thesis using A p Spawn by (simp add: e session_inv_def accounted_def)
    qed
  next
    case Wait
    then have "s1 = s\<lparr>pending := k\<rparr>" using r by (simp split: if_splits)
    then show ?thesis using L A p Wait by (simp add: session_inv_def lock_ok_def accounted_def)
  next
    case Stop
    then have "s1 = s\<lparr>stopping := True, pending := stop_actions (threads s) @ k\<rparr>" using r by simp
    then show ?thesis using L A p Stop
      by (simp add: session_inv_def lock_ok_def accounted_def how_many_valid_put_stop)
  next
    case (Put x)
    then have "s1 = (put (fst x) (snd x) s)\<lparr>pending := k\<rparr>" using r by simp
    then show ?thesis using L A p Put
      by (simp add: session_inv_def lock_ok_def accounted_def put_def)
  next
    case (Join t d)
    then have "s1 = s\<lparr>pending := k\<rparr>" using r by simp
    then show ?thesis using L A p Join by (simp add: session_inv_def lock_ok_def accounted_def)
  next
    case Report
    then show ?thesis using r L A p
      by (auto simp: session_inv_def lock_ok_def accounted_def log_line_def)
  next
    case ReportNothing
    then show ?thesis using r L A p
      by (auto simp: session_inv_def lock_ok_def accounted_def log_line_def)
  qed
qed

lemma session_inv_exec:
  "session_inv s \<Longrightarrow> exec os sources target ms s = Some s1 \<Longrightarrow> session_inv s1"
proof (induction ms arbitrary: s)
  case Nil
  then show ?case by simp
next
  case (Cons m ms)
  obtain s0 where a: "step os sources target m s = Some s0"
    and b: "exec os sources target ms s0 = Some s1"
    using Cons.prems(2) by (auto split: option.splits)
  have "session_inv s0"
  proof (cases m)
    case (Client elapsed)
    then show ?thesis using a Cons.prems(1) session_inv_client by simp
  next
    case (Worker t)
    then show ?thesis using a Cons.prems(1) session_inv_worker by simp
  qed
  then show ?case using b by (rule Cons.IH)
qed

lemma session_inv_new: "session_inv (new_session f lg [Init])"
  by (simp add: session_inv_def lock_ok_def accounted_def new_session_def)

text \<open>
  C1. For every session (\<^verbatim>\<open>_on_start\<close> has passed its checks and \<^verbatim>\<open>start_copy\<close>
  runs the planner, the pool and the report), for every platform, whatever its calls
  return or raise, and in every state that any interleaving of the client thread and
  the worker threads reaches, during and after the run, the counter of copied files is
  not greater than the number of planned files. The invariant behind it: the copied
  files, the valid entries queued and the entries held by a worker that has not yet
  counted or failed are together never more than the planned files, and only the holder
  of the lock is between reading and writing the counter.
\<close>

theorem copied_le_planned:
  assumes "session os sources_dirs target_dir fs0 ms = Some s"
  shows "copied_file_count s \<le> total_file_count s"
proof -
  obtain s0 where l: "on_start os sources_dirs target_dir fs0 = Launched s0"
    and e: "exec os sources_dirs target_dir ms s0 = Some s"
    using assms by (auto simp: session_def split: outcome.splits)
  have "\<exists>f lg. s0 = new_session f lg [Init]"
    using l by (auto simp: on_start_def Let_def split: if_splits)
  then have "session_inv s0" using session_inv_new by auto
  then have "session_inv s" using e by (rule session_inv_exec)
  then show ?thesis by (simp add: session_inv_def accounted_def)
qed

subsection \<open>The invariants on the examples\<close>

lemma demo_half_exec:
  "exec (posix c) [''/A''] ''/dst'' ([Client 0, Client 0, Client 0] @ replicate 8 (Worker 0))
     (new_session demo_fs [CopyingGB 0] [Init]) =
   Some \<lparr>fs = demo_fs @ [(''/dst/VID_1'', Dir), (''/dst/VID_1/f'', File 1000)],
     logs = [CopyingGB 0, CollectingSourceSubfolders, CreatingTargetFolders,
             PreparingFiles, Prepared 2, Copying ''/A/VID_1/f''],
     stopping = False,
     file_queue = [(Some ''/A/VID_1/ln'', Some ''/dst/VID_1/'')],
     unfinished_tasks = 1, total_file_count = 2, copied_file_count = 1,
     lock = None, workers = [Idle], threads = [0],
     pending = [Wait, Stop, Report]\<rparr>"
  by code_simp

text \<open>Half way through the example session: two files planned, one copied.\<close>

theorem copied_le_planned_witness:
  "map_option total_file_count
     (session (posix 5000000000) [''/A''] ''/dst'' demo_fs
        ([Client 0, Client 0, Client 0] @ replicate 8 (Worker 0))) = Some 2
   \<and> map_option copied_file_count
     (session (posix 5000000000) [''/A''] ''/dst'' demo_fs
        ([Client 0, Client 0, Client 0] @ replicate 8 (Worker 0))) = Some 1
   \<and> (1 :: nat) \<le> 2"
proof -
  let ?s = "\<lparr>fs = demo_fs @ [(''/dst/VID_1'', Dir), (''/dst/VID_1/f'', File 1000)],
     logs = [CopyingGB 0, CollectingSourceSubfolders, CreatingTargetFolders,
             PreparingFiles, Prepared 2, Copying ''/A/VID_1/f''],
     stopping = False,
     file_queue = [(Some ''/A/VID_1/ln'', Some ''/dst/VID_1/'')],
     unfinished_tasks = 1, total_file_count = 2, copied_file_count = 1,
     lock = None, workers = [Idle], threads = [0],
     pending = [Wait, Stop, Report]\<rparr>"
  have e: "session (posix 5000000000) [''/A''] ''/dst'' demo_fs
        ([Client 0, Client 0, Client 0] @ replicate 8 (Worker 0)) = Some ?s"
    by (simp only: session_def demo_launched outcome.case demo_half_exec)
  have "copied_file_count ?s \<le> total_file_count ?s"
    using e by (rule copied_le_planned)
  then show ?thesis unfolding e by simp
qed

subsection \<open>The error line of a worker\<close>








end
